theory Spec2Isabelle
  imports Main "HOL-Library.Char_ord" "HOL-Library.List_Lexorder"
begin

section \<open>The store\<close>

text \<open>
  The four tables of \<^verbatim>\<open>schema.sql\<close>. A TEXT column is a \<open>string\<close>, a nullable
  column an \<open>option\<close>, an INTEGER column an \<open>int\<close>. Strings are compared the way
  SQLite's default collation compares TEXT: byte by byte, a proper prefix first
  (the order of \<open>HOL-Library.List_Lexorder\<close> over \<open>HOL-Library.Char_ord\<close>).
  The \<open>state\<close> column carries a CHECK constraint with five values and is a datatype.
  The column \<open>id\<close> of \<open>jobs\<close> is called \<open>jid\<close>, the one of \<open>dlq\<close> is \<open>dlq_id\<close> and the
  one of \<open>workers\<close> is \<open>wid\<close>.
\<close>

datatype job_state = Pending | Processing | Completed | Failed | Dead

record job =
  jid :: string
  command :: string
  state :: job_state
  attempts :: int
  max_retries :: int
  created_at :: string
  updated_at :: string
  run_at :: "string option"
  last_error :: "string option"
  priority :: int
  locked_by :: "string option"
  lock_until :: "string option"

text \<open>
  The \<open>payload\<close> column of \<open>dlq\<close> holds the text that \<^verbatim>\<open>JSON.stringify\<close> makes of
  \<^verbatim>\<open>{id, command, max_retries, priority}\<close> and that \<^verbatim>\<open>JSON.parse\<close> reads back; the model
  keeps the parsed object. The two numbers are optional because \<^verbatim>\<open>dlqRetry\<close> reads them
  with \<^verbatim>\<open>??\<close>.
\<close>

record payload =
  p_id :: string
  p_command :: string
  p_max_retries :: "int option"
  p_priority :: "int option"

record dlq_entry =
  dlq_id :: string
  job_id :: string
  payload :: payload
  dead_at :: string

record worker =
  wid :: string
  pid :: int
  started_at :: string
  heartbeat_at :: string

text \<open>
  Rows of \<open>jobs\<close>, \<open>dlq\<close> and \<open>workers\<close> are kept in rowid order, which is the order of
  insertion. \<open>config\<close> has \<open>key\<close> as its primary key and is a map.
\<close>

record database =
  jobs :: "job list"
  dlq :: "dlq_entry list"
  config :: "string \<rightharpoonup> string"
  workers :: "worker list"

text \<open>
  What the operations throw: the \<^verbatim>\<open>Error\<close> of \<^verbatim>\<open>dlqRetry\<close> for an unknown id, the
  exception of the SQLite driver for a statement it rejects (a primary key that is
  already there, a value missing for a NOT NULL column), and the \<^verbatim>\<open>RangeError\<close> of
  \<^verbatim>\<open>toISOString\<close> on an invalid date.
\<close>

datatype error =
  DlqNotFound string
  | SqliteError
  | RangeError

section \<open>Clock and backoff (util.js)\<close>

text \<open>
  The JavaScript \<^verbatim>\<open>Date\<close> object belongs to the host, not to the repository:
  \<open>parseDate h stamp\<close> stands for \<^verbatim>\<open>new Date(stamp).getTime()\<close> on an ISO string and
  \<open>toISOString h ms\<close> for \<^verbatim>\<open>new Date(ms).toISOString()\<close> on a time value. A clock reading \<open>t\<close>
  is the time value that \<^verbatim>\<open>new Date()\<close> holds, in milliseconds. A \<^verbatim>\<open>Date\<close> is valid when its
  time value is at most 8.64e15 in absolute value; \<^verbatim>\<open>toISOString\<close> throws on an invalid one.

  The strings of the host are sequences of UTF-16 code units, those of the store are UTF-8.
  A character outside the basic plane is a pair of code units in the host and four bytes
  in the store; \<open>unpaired h c\<close> stands for the bytes that the database binding of the host
  writes for the first unit of the pair of \<open>c\<close> when its second unit is missing.
\<close>

record host =
  parseDate :: "string \<Rightarrow> int"
  toISOString :: "int \<Rightarrow> string"
  unpaired :: "string \<Rightarrow> string"

definition nowISO :: "host \<Rightarrow> int \<Rightarrow> string" where
  "nowISO h t = toISOString h t"

definition validTime :: "int \<Rightarrow> bool" where
  "validTime ms = (- 8640000000000000 \<le> ms \<and> ms \<le> 8640000000000000)"

definition addSeconds :: "host \<Rightarrow> string \<Rightarrow> int \<Rightarrow> error + string" where
  "addSeconds h stamp seconds =
     (let ms = parseDate h stamp + seconds * 1000
      in if validTime ms then Inr (toISOString h ms) else Inl RangeError)"

text \<open>
  \<^verbatim>\<open>Math.pow(base, attempts)\<close> on an integer base and a non-negative integer count of
  attempts. The model computes with integers; the rounding of doubles, which begins beyond
  2^53 and so beyond the time values of valid dates, is not part of it.
\<close>

definition backoff :: "int \<Rightarrow> int \<Rightarrow> int" where
  "backoff base n = base ^ nat n"

section \<open>Config (config.js)\<close>

text \<open>
  \<^verbatim>\<open>parseInt(s, 10)\<close> of the host: leading white space is dropped, one sign is read, then
  the longest run of decimal digits; no digit gives \<^verbatim>\<open>NaN\<close>. Strings are UTF-8 here, so the
  white space and line terminators of ECMAScript are sequences of one to three bytes. The
  value is an exact integer in the model; the host rounds it to a double.
\<close>

datatype jsnum = NaN | Num int

definition isWhiteSpace1 :: "char \<Rightarrow> bool" where
  "isWhiteSpace1 a = (a \<in> set [CHR 0x09, CHR 0x0A, CHR 0x0B, CHR 0x0C, CHR 0x0D, CHR 0x20])"

definition isWhiteSpace2 :: "char \<Rightarrow> char \<Rightarrow> bool" where
  "isWhiteSpace2 a b = (a = CHR 0xC2 \<and> b = CHR 0xA0)"

definition isWhiteSpace3 :: "char \<Rightarrow> char \<Rightarrow> char \<Rightarrow> bool" where
  "isWhiteSpace3 a b c =
     ((a = CHR 0xE1 \<and> b = CHR 0x9A \<and> c = CHR 0x80) \<or>
      (a = CHR 0xE2 \<and> b = CHR 0x80 \<and>
         c \<in> set [CHR 0x80, CHR 0x81, CHR 0x82, CHR 0x83, CHR 0x84, CHR 0x85, CHR 0x86, CHR 0x87,
                  CHR 0x88, CHR 0x89, CHR 0x8A, CHR 0xA8, CHR 0xA9, CHR 0xAF]) \<or>
      (a = CHR 0xE2 \<and> b = CHR 0x81 \<and> c = CHR 0x9F) \<or>
      (a = CHR 0xE3 \<and> b = CHR 0x80 \<and> c = CHR 0x80) \<or>
      (a = CHR 0xEF \<and> b = CHR 0xBB \<and> c = CHR 0xBF))"

fun trimStart :: "string \<Rightarrow> string" where
  "trimStart (a # b # c # s) =
     (if isWhiteSpace1 a then trimStart (b # c # s)
      else if isWhiteSpace2 a b then trimStart (c # s)
      else if isWhiteSpace3 a b c then trimStart s
      else a # b # c # s)"
| "trimStart [a, b] =
     (if isWhiteSpace1 a then trimStart [b] else if isWhiteSpace2 a b then [] else [a, b])"
| "trimStart [a] = (if isWhiteSpace1 a then [] else [a])"
| "trimStart [] = []"

definition isDigit :: "char \<Rightarrow> bool" where
  "isDigit c = (c \<in> set ''0123456789'')"

definition digitValue :: "char \<Rightarrow> int" where
  "digitValue c = int (of_char c) - 48"

definition stripSign :: "string \<Rightarrow> string" where
  "stripSign s = (case s of [] \<Rightarrow> [] | c # cs \<Rightarrow> if c = CHR ''+'' \<or> c = CHR ''-'' then cs else s)"

definition signOf :: "string \<Rightarrow> int" where
  "signOf s = (case s of [] \<Rightarrow> 1 | c # cs \<Rightarrow> if c = CHR ''-'' then - 1 else 1)"

definition parseInt10 :: "string \<Rightarrow> jsnum" where
  "parseInt10 s =
     (let S = trimStart s;
          Z = takeWhile isDigit (stripSign S)
      in if Z = [] then NaN
         else Num (signOf S * foldl (\<lambda>a c. 10 * a + digitValue c) 0 Z))"

text \<open>
  \<^verbatim>\<open>DEFAULTS[key]\<close> is a property lookup on an object literal: besides its two own
  properties it finds, for the names of \<^verbatim>\<open>Object.prototype\<close>, a function or an object. Such a
  value is not null, and as a string it begins with \<^verbatim>\<open>function\<close> or \<^verbatim>\<open>[object\<close>.
\<close>

datatype config_value = Text string | Inherited

definition objectPrototype :: "string list" where
  "objectPrototype =
     [''constructor'', ''__defineGetter__'', ''__defineSetter__'', ''hasOwnProperty'',
      ''__lookupGetter__'', ''__lookupSetter__'', ''isPrototypeOf'', ''propertyIsEnumerable'',
      ''toString'', ''valueOf'', ''__proto__'', ''toLocaleString'']"

definition DEFAULTS :: "string \<Rightarrow> config_value option" where
  "DEFAULTS key =
     (if key = ''max_retries'' then Some (Text ''3'')
      else if key = ''backoff_base'' then Some (Text ''2'')
      else if key \<in> set objectPrototype then Some Inherited
      else None)"

definition get :: "database \<Rightarrow> string \<Rightarrow> config_value option" where
  "get db key = (case config db key of Some v \<Rightarrow> Some (Text v) | None \<Rightarrow> DEFAULTS key)"

definition getInt :: "database \<Rightarrow> string \<Rightarrow> jsnum" where
  "getInt db key =
     (case get db key of
        None \<Rightarrow> parseInt10 ''0''
      | Some (Text v) \<Rightarrow> parseInt10 v
      | Some Inherited \<Rightarrow> NaN)"

text \<open>A value is unparsable when no decimal digit follows its white space and sign.\<close>

definition unparsable :: "string \<Rightarrow> bool" where
  "unparsable v = (case stripSign (trimStart v) of [] \<Rightarrow> True | c # cs \<Rightarrow> \<not> isDigit c)"

section \<open>SQL building blocks\<close>

text \<open>
  \<^verbatim>\<open>x || null\<close> on a string that may be missing: the empty string is falsy.
\<close>

definition orNull :: "string option \<Rightarrow> string option" where
  "orNull v = (case v of None \<Rightarrow> None | Some s \<Rightarrow> if s = [] then None else Some s)"

text \<open>
  \<^verbatim>\<open>SELECT ... ORDER BY ... LIMIT 1\<close>: \<open>first_by prec rows\<close> is the row that no other row
  sorts strictly before, the earliest such row in rowid order when several tie (SQLite
  itself leaves the order of tied rows open).
\<close>

fun first_by :: "('a \<Rightarrow> 'a \<Rightarrow> bool) \<Rightarrow> 'a list \<Rightarrow> 'a option" where
  "first_by prec [] = None"
| "first_by prec (x # xs) =
     (case first_by prec xs of
        None \<Rightarrow> Some x
      | Some y \<Rightarrow> if prec y x then Some y else Some x)"

text \<open>\<^verbatim>\<open>UPDATE jobs SET ... WHERE ...\<close> and the number of rows it changes.\<close>

definition update_where :: "(job \<Rightarrow> bool) \<Rightarrow> (job \<Rightarrow> job) \<Rightarrow> database \<Rightarrow> database" where
  "update_where P f db = db\<lparr>jobs := map (\<lambda>j. if P j then f j else j) (jobs db)\<rparr>"

definition changes :: "(job \<Rightarrow> bool) \<Rightarrow> database \<Rightarrow> nat" where
  "changes P db = length (filter P (jobs db))"

section \<open>Queue API (queue.js)\<close>

record job_input =
  in_id :: "string option"
  in_command :: "string option"
  in_max_retries :: "int option"
  in_priority :: "int option"
  in_run_at :: "string option"

text \<open>
  \<open>enqueue h t nanoid job db\<close>: \<open>t\<close> is the clock reading and \<open>nanoid\<close> the eight random
  characters of \<^verbatim>\<open>nanoid(8)\<close>. The INSERT is rejected when the command is missing or the
  id is already a primary key.
\<close>

definition enqueue :: "host \<Rightarrow> int \<Rightarrow> string \<Rightarrow> job_input \<Rightarrow> database \<Rightarrow> error + string \<times> database" where
  "enqueue h t nanoid job db =
     (let ident = (case orNull (in_id job) of Some s \<Rightarrow> s | None \<Rightarrow> ''job_'' @ nanoid);
          created = nowISO h t;
          maxRetries = (case in_max_retries job of Some n \<Rightarrow> n | None \<Rightarrow> 3);
          prio = (case in_priority job of Some n \<Rightarrow> n | None \<Rightarrow> 0)
      in case in_command job of
           None \<Rightarrow> Inl SqliteError
         | Some cmd \<Rightarrow>
             if ident \<in> jid ` set (jobs db) then Inl SqliteError
             else Inr (ident, db\<lparr>jobs := jobs db @
               [\<lparr>jid = ident, command = cmd, state = Pending, attempts = 0,
                 max_retries = maxRetries, created_at = created, updated_at = created,
                 run_at = orNull (in_run_at job), last_error = None, priority = prio,
                 locked_by = None, lock_until = None\<rparr>]\<rparr>))"

record status_result =
  pending :: nat
  processing :: nat
  completed :: nat
  failed :: nat
  dead :: nat
  active_workers :: nat
  oldest_pending :: "string option"

text \<open>
  \<^verbatim>\<open>SELECT state, COUNT(*) FROM jobs GROUP BY state\<close>, read at one state. \<open>status h t db\<close>
  takes the clock reading \<open>t\<close> of its \<^verbatim>\<open>new Date()\<close>; ten seconds before a clock reading is
  a valid date.
\<close>

definition count_state :: "job_state \<Rightarrow> database \<Rightarrow> nat" where
  "count_state s db = length (filter (\<lambda>j. state j = s) (jobs db))"

definition status :: "host \<Rightarrow> int \<Rightarrow> database \<Rightarrow> status_result" where
  "status h t db =
     (let tenSecondsAgo = toISOString h (t - 10000);
          activeWorkersCount =
            length (filter (\<lambda>w. heartbeat_at w \<noteq> [] \<and> tenSecondsAgo \<le> heartbeat_at w) (workers db));
          oldestPending =
            first_by (\<lambda>a b. created_at a < created_at b) (filter (\<lambda>j. state j = Pending) (jobs db))
      in \<lparr>pending = count_state Pending db, processing = count_state Processing db,
          completed = count_state Completed db, failed = count_state Failed db,
          dead = count_state Dead db, active_workers = activeWorkersCount,
          oldest_pending = (case oldestPending of None \<Rightarrow> None | Some j \<Rightarrow> orNull (Some (created_at j)))\<rparr>)"

text \<open>
  \<open>dlqRetry h t ident db\<close>. The DELETE and the INSERT run in one transaction: when the
  INSERT is rejected because \<open>jobs\<close> already has a row with the id of the payload, the
  DELETE is rolled back and the exception reaches the caller.
\<close>

definition dlqRetry :: "host \<Rightarrow> int \<Rightarrow> string \<Rightarrow> database \<Rightarrow> error + string \<times> database" where
  "dlqRetry h t ident db =
     (case find (\<lambda>d. dlq_id d = ident) (dlq db) of
        None \<Rightarrow> Inl (DlqNotFound ident)
      | Some row \<Rightarrow>
          let p = payload row; now = nowISO h t
          in if p_id p \<in> jid ` set (jobs db) then Inl SqliteError
             else Inr (p_id p,
               db\<lparr>dlq := filter (\<lambda>d. dlq_id d \<noteq> ident) (dlq db),
                  jobs := jobs db @
                    [\<lparr>jid = p_id p, command = p_command p, state = Pending, attempts = 0,
                      max_retries = (case p_max_retries p of Some n \<Rightarrow> n | None \<Rightarrow> 3),
                      created_at = now, updated_at = now, run_at = None, last_error = None,
                      priority = (case p_priority p of Some n \<Rightarrow> n | None \<Rightarrow> 0),
                      locked_by = None, lock_until = None\<rparr>]\<rparr>))"

section \<open>Worker (worker.js)\<close>

text \<open>
  What \<^verbatim>\<open>executeCommand\<close> returns: \<^verbatim>\<open>{ok: true, ...}\<close> when the command exits with code 0
  in time, otherwise \<^verbatim>\<open>{ok: false, error, stderr, code}\<close>, the code as the template literal
  prints it.
\<close>

datatype exec_result = ExecOk | ExecFail string string string

text \<open>
  \<^verbatim>\<open>s.slice(0, n)\<close> on a well-formed string \<open>s\<close>, as the store holds the result: the first
  \<open>n\<close> UTF-16 code units of \<open>s\<close>. A character of one, two or three bytes is one code unit, a
  character of four bytes is two; when the cut falls between the two, the first is left
  unpaired.
\<close>

fun slice0 :: "host \<Rightarrow> nat \<Rightarrow> string \<Rightarrow> string" where
  "slice0 h n [] = []"
| "slice0 h n (c # cs) =
     (if n = 0 then []
      else if (of_char c :: nat) < 0xC0 then c # slice0 h (n - 1) cs
      else if (of_char c :: nat) < 0xE0 then c # take 1 cs @ slice0 h (n - 1) (drop 1 cs)
      else if (of_char c :: nat) < 0xF0 then c # take 2 cs @ slice0 h (n - 1) (drop 2 cs)
      else if n = 1 then unpaired h (c # take 3 cs)
      else c # take 3 cs @ slice0 h (n - 2) (drop 3 cs))"

text \<open>
  The text \<^verbatim>\<open>`exit=${res.code}: ${(res.error || res.stderr || '').slice(0,200)}`\<close>.
\<close>

definition lastErrorText :: "host \<Rightarrow> string \<Rightarrow> string \<Rightarrow> string \<Rightarrow> string" where
  "lastErrorText h err stderr code =
     ''exit='' @ code @ '': '' @ slice0 h 200 (if err \<noteq> [] then err else stderr)"

definition refreshLock :: "host \<Rightarrow> string \<Rightarrow> job option \<Rightarrow> int \<Rightarrow> database \<Rightarrow> database" where
  "refreshLock h worker_id currentJob t db =
     (case currentJob of
        None \<Rightarrow> db
      | Some cj \<Rightarrow>
          (case addSeconds h (nowISO h t) 60 of
             Inl e \<Rightarrow> db
           | Inr extended \<Rightarrow>
               update_where (\<lambda>j. jid j = jid cj \<and> locked_by j = Some worker_id)
                 (\<lambda>j. j\<lparr>lock_until := Some extended\<rparr>) db))"

text \<open>The WHERE clause of the sub-select of \<^verbatim>\<open>claimJob\<close> and its ORDER BY.\<close>

definition eligible :: "string \<Rightarrow> job \<Rightarrow> bool" where
  "eligible now j =
     ((state j = Pending \<or> state j = Failed) \<and>
      (case run_at j of None \<Rightarrow> True | Some r \<Rightarrow> r \<le> now) \<and>
      (case lock_until j of None \<Rightarrow> True | Some l \<Rightarrow> l \<le> now))"

definition claim_order :: "job \<Rightarrow> job \<Rightarrow> bool" where
  "claim_order a b =
     (priority b < priority a \<or> (priority a = priority b \<and> created_at a < created_at b))"

definition select_next :: "string \<Rightarrow> database \<Rightarrow> string option" where
  "select_next now db = map_option jid (first_by claim_order (filter (eligible now) (jobs db)))"

definition claim_update :: "string \<Rightarrow> string \<Rightarrow> string \<Rightarrow> job \<Rightarrow> job" where
  "claim_update worker_id lockUntil now j =
     j\<lparr>state := Processing, locked_by := Some worker_id, lock_until := Some lockUntil,
       attempts := attempts j + 1, updated_at := now\<rparr>"

text \<open>
  The second statement of \<^verbatim>\<open>claimJob\<close>:
  \<^verbatim>\<open>SELECT * FROM jobs WHERE locked_by = ? AND state = 'processing' ORDER BY updated_at DESC LIMIT 1\<close>.
\<close>

definition reread :: "string \<Rightarrow> database \<Rightarrow> job option" where
  "reread worker_id db =
     first_by (\<lambda>a b. updated_at b < updated_at a)
       (filter (\<lambda>j. locked_by j = Some worker_id \<and> state j = Processing) (jobs db))"

text \<open>
  \<open>claimJob h worker_id t db\<close> gives the job it returns (\<open>None\<close> for \<^verbatim>\<open>null\<close>) and the store
  after the UPDATE. A sub-select without a row is NULL, and \<^verbatim>\<open>id = NULL\<close> holds for no row.
  The lease end is computed before the first statement runs.
\<close>

definition claimJob :: "host \<Rightarrow> string \<Rightarrow> int \<Rightarrow> database \<Rightarrow> error + job option \<times> database" where
  "claimJob h worker_id t db =
     (let now = nowISO h t
      in case addSeconds h now 60 of
           Inl e \<Rightarrow> Inl e
         | Inr lockUntil \<Rightarrow>
             (case select_next now db of
                None \<Rightarrow> Inr (None, db)
              | Some i \<Rightarrow>
                  let db' = update_where (\<lambda>j. jid j = i) (claim_update worker_id lockUntil now) db
                  in if changes (\<lambda>j. jid j = i) db = 0 then Inr (None, db')
                     else Inr (reread worker_id db', db')))"

text \<open>
  \<open>processJob h job res t t' db\<close>: \<open>job\<close> is the row that \<^verbatim>\<open>claimJob\<close> returned, \<open>res\<close> the
  result of \<^verbatim>\<open>executeCommand\<close>, \<open>t\<close> the clock reading after the command and \<open>t'\<close> the one
  taken for \<^verbatim>\<open>deadAt\<close>. The INSERT into \<open>dlq\<close> and the UPDATE to \<open>dead\<close> are one
  transaction, rolled back when the id \<open>dlq_<job id>\<close> is already in \<open>dlq\<close>. The retry time is
  computed before the UPDATE runs: when it is not a valid date, nothing is written. The
  config is read from the store that the outcome is written to.
\<close>

definition processJob :: "host \<Rightarrow> job \<Rightarrow> exec_result \<Rightarrow> int \<Rightarrow> int \<Rightarrow> database \<Rightarrow> error + database" where
  "processJob h job res t t' db =
     (let base = (case getInt db ''backoff_base'' of NaN \<Rightarrow> 2 | Num n \<Rightarrow> if n = 0 then 2 else n);
          maxRetries = max_retries job;
          attemptsNow = (if attempts job = 0 then 1 else attempts job);
          now = nowISO h t
      in case res of
           ExecOk \<Rightarrow>
             Inr (update_where (\<lambda>j. jid j = jid job)
                   (\<lambda>j. j\<lparr>state := Completed, updated_at := now, locked_by := None,
                          lock_until := None, last_error := None\<rparr>) db)
         | ExecFail err stderr code \<Rightarrow>
             if attemptsNow < maxRetries then
               let delay = backoff base attemptsNow
               in case addSeconds h now delay of
                    Inl e \<Rightarrow> Inl e
                  | Inr runAt \<Rightarrow>
                      Inr (update_where (\<lambda>j. jid j = jid job)
                        (\<lambda>j. j\<lparr>state := Failed, attempts := attemptsNow, run_at := Some runAt,
                               updated_at := now, last_error := Some (lastErrorText h err stderr code),
                               locked_by := None, lock_until := Some runAt\<rparr>) db)
             else
               let deadAt = nowISO h t';
                   snapshot = \<lparr>p_id = jid job, p_command = command job,
                               p_max_retries = Some (max_retries job), p_priority = Some (priority job)\<rparr>
               in if ''dlq_'' @ jid job \<in> dlq_id ` set (dlq db) then Inl SqliteError
                  else Inr (update_where (\<lambda>j. jid j = jid job)
                        (\<lambda>j. j\<lparr>state := Dead, updated_at := deadAt, locked_by := None,
                               lock_until := None, last_error := Some (lastErrorText h err stderr code)\<rparr>)
                        (db\<lparr>dlq := dlq db @
                           [\<lparr>dlq_id = ''dlq_'' @ jid job, job_id = jid job,
                             payload = snapshot, dead_at = deadAt\<rparr>]\<rparr>)))"

section \<open>The running system\<close>

text \<open>
  A state of the system is the store, the \<^verbatim>\<open>currentJob\<close> variable of every worker process
  (indexed by the worker's id) and, for the statement of the history of a job only, the
  set \<open>claimed\<close> of the ids whose row was claimed since it was created.

  The operations are those of the queue API and of the worker loop: \<^verbatim>\<open>runWorkerLoop\<close>
  calls \<^verbatim>\<open>claimJob\<close> when it holds no job, and \<^verbatim>\<open>processJob\<close> on the job that
  \<^verbatim>\<open>claimJob\<close> returned; the refresher runs while the job is held; \<^verbatim>\<open>processJob\<close> clears
  \<^verbatim>\<open>currentJob\<close> in its \<^verbatim>\<open>finally\<close> block, also when the transaction has thrown. The
  system starts from a store without jobs and without dead letters.
\<close>

record system =
  store :: database
  currentJob :: "string \<Rightarrow> job option"
  claimed :: "string set"

inductive reachable :: "host \<Rightarrow> system \<Rightarrow> bool" for h :: host where
  init: "jobs d = [] \<Longrightarrow> dlq d = [] \<Longrightarrow>
         reachable h \<lparr>store = d, currentJob = (\<lambda>w. None), claimed = {}\<rparr>"
| enqueue: "reachable h s \<Longrightarrow> enqueue h t nanoid job (store s) = Inr (i, d) \<Longrightarrow>
         reachable h (s\<lparr>store := d\<rparr>)"
| claim: "reachable h s \<Longrightarrow> currentJob s w = None \<Longrightarrow> claimJob h w t (store s) = Inr (r, d) \<Longrightarrow>
         reachable h (s\<lparr>store := d, currentJob := (currentJob s)(w := r),
           claimed := (case select_next (nowISO h t) (store s) of
                         None \<Rightarrow> claimed s | Some i \<Rightarrow> insert i (claimed s))\<rparr>)"
| resolve: "reachable h s \<Longrightarrow> currentJob s w = Some j \<Longrightarrow>
         processJob h j res t t' (store s) = Inr d \<Longrightarrow>
         reachable h (s\<lparr>store := d, currentJob := (currentJob s)(w := None)\<rparr>)"
| resolve_thrown: "reachable h s \<Longrightarrow> currentJob s w = Some j \<Longrightarrow>
         processJob h j res t t' (store s) = Inl e \<Longrightarrow>
         reachable h (s\<lparr>currentJob := (currentJob s)(w := None)\<rparr>)"
| refresh: "reachable h s \<Longrightarrow> currentJob s w = Some j \<Longrightarrow>
         reachable h (s\<lparr>store := refreshLock h w (Some j) t (store s)\<rparr>)"
| dlq_retry: "reachable h s \<Longrightarrow> dlqRetry h t i (store s) = Inr (k, d) \<Longrightarrow>
         reachable h (s\<lparr>store := d, claimed := claimed s - {k}\<rparr>)"

section \<open>Examples of stores\<close>

definition empty_db :: database where
  "empty_db = \<lparr>jobs = [], dlq = [], config = Map.empty, workers = []\<rparr>"

text \<open>
  The host's \<^verbatim>\<open>Date\<close> on the instants that the examples use (milliseconds since the
  epoch and their ISO strings).
\<close>

definition stamps :: "(int \<times> string) list" where
  "stamps =
     [(0, ''1970-01-01T00:00:00.000Z''), (1000, ''1970-01-01T00:00:01.000Z''),
      (2000, ''1970-01-01T00:00:02.000Z''), (3000, ''1970-01-01T00:00:03.000Z''),
      (4000, ''1970-01-01T00:00:04.000Z''), (60000, ''1970-01-01T00:01:00.000Z''),
      (61000, ''1970-01-01T00:01:01.000Z''), (62000, ''1970-01-01T00:01:02.000Z''),
      (120000, ''1970-01-01T00:02:00.000Z''), (5000, ''1970-01-01T00:00:05.000Z'')]"

definition host0 :: host where
  "host0 =
     \<lparr>parseDate = (\<lambda>s. case find (\<lambda>p. snd p = s) stamps of Some p \<Rightarrow> fst p | None \<Rightarrow> 0),
      toISOString = (\<lambda>m. case map_of stamps m of Some s \<Rightarrow> s | None \<Rightarrow> ''1970-01-01T00:00:00.000Z''),
      unpaired = (\<lambda>c. [CHR 0xEF, CHR 0xBF, CHR 0xBD])\<rparr>"

text \<open>
  \<open>job_a\<close> is held by worker \<open>w\<close>, who claimed it at 00:01:00; \<open>job_b\<close> and \<open>job_hi\<close> are
  pending, \<open>job_hi\<close> with the higher priority. In \<open>db_held\<close> the config sets a
  \<open>backoff_base\<close> of 10^13 seconds.
\<close>

definition job_a :: job where
  "job_a = \<lparr>jid = ''a'', command = ''true'', state = Processing, attempts = 1, max_retries = 3,
     created_at = ''1970-01-01T00:00:00.000Z'', updated_at = ''1970-01-01T00:01:00.000Z'',
     run_at = None, last_error = None, priority = 0, locked_by = Some ''w'',
     lock_until = Some ''1970-01-01T00:02:00.000Z''\<rparr>"

definition job_b :: job where
  "job_b = \<lparr>jid = ''b'', command = ''true'', state = Pending, attempts = 0, max_retries = 3,
     created_at = ''1970-01-01T00:00:00.000Z'', updated_at = ''1970-01-01T00:00:00.000Z'',
     run_at = None, last_error = None, priority = 0, locked_by = None, lock_until = None\<rparr>"

definition job_hi :: job where
  "job_hi = \<lparr>jid = ''hi'', command = ''true'', state = Pending, attempts = 0, max_retries = 3,
     created_at = ''1970-01-01T00:00:01.000Z'', updated_at = ''1970-01-01T00:00:01.000Z'',
     run_at = None, last_error = None, priority = 10, locked_by = None, lock_until = None\<rparr>"

definition db_cfg :: database where
  "db_cfg = empty_db\<lparr>config := [''backoff_base'' \<mapsto> ''10000000000000'']\<rparr>"

definition db_held :: database where
  "db_held = db_cfg\<lparr>jobs := [job_a, job_b]\<rparr>"

definition db_prio :: database where
  "db_prio = empty_db\<lparr>jobs := [job_b, job_hi]\<rparr>"

text \<open>
  \<open>job_run\<close> is a job as \<^verbatim>\<open>claimJob\<close> returns it after its first claim; in \<open>db_last\<close> it is
  in its second and last attempt.
\<close>

definition job_run :: job where
  "job_run = \<lparr>jid = ''t2'', command = ''exit 1'', state = Processing, attempts = 1, max_retries = 2,
     created_at = ''1970-01-01T00:00:00.000Z'', updated_at = ''1970-01-01T00:00:01.000Z'',
     run_at = None, last_error = None, priority = 0, locked_by = Some ''w'',
     lock_until = Some ''1970-01-01T00:01:01.000Z''\<rparr>"

definition db_run :: database where
  "db_run = empty_db\<lparr>jobs := [job_run]\<rparr>"

definition db_last :: database where
  "db_last = empty_db\<lparr>jobs := [job_run\<lparr>attempts := 2\<rparr>]\<rparr>"

text \<open>The columns that no UPDATE statement of the worker names in its SET list.\<close>

definition frame :: "job \<Rightarrow> string \<times> string \<times> int \<times> int \<times> string" where
  "frame j = (jid j, command j, priority j, max_retries j, created_at j)"

text \<open>
  \<open>db_status\<close> has two pending jobs, one job in process and one worker whose last heartbeat
  is at 00:00:01. \<open>db_dead\<close> is \<open>db_last\<close> after the last attempt has failed.
\<close>

definition worker_1 :: worker where
  "worker_1 = \<lparr>wid = ''worker_1'', pid = 4711, started_at = ''1970-01-01T00:00:00.000Z'',
     heartbeat_at = ''1970-01-01T00:00:01.000Z''\<rparr>"

definition db_status :: database where
  "db_status = empty_db\<lparr>jobs := [job_hi, job_a, job_b], workers := [worker_1]\<rparr>"

definition db_dead :: database where
  "db_dead = db_last\<lparr>dlq := [\<lparr>dlq_id = ''dlq_t2'', job_id = ''t2'',
                              payload = \<lparr>p_id = ''t2'', p_command = ''exit 1'',
                                          p_max_retries = Some 2, p_priority = Some 0\<rparr>,
                              dead_at = ''1970-01-01T00:00:03.000Z''\<rparr>],
                    jobs := [job_run\<lparr>attempts := 2, state := Dead, locked_by := None,
                                    lock_until := None,
                                    last_error := Some ''exit=1: Command failed: exit 1'',
                                    updated_at := ''1970-01-01T00:00:03.000Z''\<rparr>]\<rparr>"

definition input_now :: job_input where
  "input_now = \<lparr>in_id = None, in_command = Some ''echo ok'', in_max_retries = None,
     in_priority = None, in_run_at = Some ''''\<rparr>"

section \<open>Invariants of the running system\<close>

text \<open>
  The predicates of the invariants. \<open>row_ok C j\<close> relates the attempts of a row to its
  state, to its \<open>max_retries\<close> and to the set \<open>C\<close> of claimed ids; \<open>held_ok xs w j\<close> says that
  the job \<open>j\<close> which worker \<open>w\<close> holds in \<^verbatim>\<open>currentJob\<close> is a row of \<open>xs\<close> in state
  \<open>processing\<close>, locked by \<open>w\<close>, with the attempts and \<open>max_retries\<close> of \<open>j\<close>; \<open>lease_ok j\<close>
  relates the lease columns of a row to its state.
\<close>

definition row_ok :: "string set \<Rightarrow> job \<Rightarrow> bool" where
  "row_ok C j =
     ((state j = Pending \<longrightarrow> attempts j = 0 \<and> jid j \<notin> C) \<and>
      (state j \<noteq> Pending \<longrightarrow> 1 \<le> attempts j \<and> jid j \<in> C) \<and>
      (state j = Failed \<longrightarrow> attempts j < max_retries j) \<and>
      (0 \<le> max_retries j \<longrightarrow> attempts j \<le> max_retries j + 1))"

definition held_ok :: "job list \<Rightarrow> string \<Rightarrow> job \<Rightarrow> bool" where
  "held_ok xs w j =
     (\<exists>r\<in>set xs. jid r = jid j \<and> state r = Processing \<and> locked_by r = Some w \<and>
                  attempts r = attempts j \<and> max_retries r = max_retries j)"

definition consistent :: "system \<Rightarrow> bool" where
  "consistent s =
     (distinct (map jid (jobs (store s))) \<and>
      (\<forall>j\<in>set (jobs (store s)). row_ok (claimed s) j) \<and>
      claimed s \<subseteq> jid ` set (jobs (store s)) \<and>
      (\<forall>w j. currentJob s w = Some j \<longrightarrow> held_ok (jobs (store s)) w j))"

definition lease_ok :: "job \<Rightarrow> bool" where
  "lease_ok j =
     ((state j = Processing \<longrightarrow> locked_by j \<noteq> None \<and> lock_until j \<noteq> None) \<and>
      (state j = Pending \<or> state j = Completed \<or> state j = Dead \<longrightarrow>
         locked_by j = None \<and> lock_until j = None) \<and>
      (state j = Failed \<longrightarrow> locked_by j = None \<and> lock_until j = run_at j \<and> run_at j \<noteq> None))"

text \<open>
  A run of the system on \<open>host0\<close>: job \<open>t2\<close> is enqueued at 00:00:00 (\<open>sys_1\<close>), claimed by
  worker \<open>w\<close> at 00:00:01 (\<open>sys_2\<close>) and fails at 00:00:02 (\<open>sys_3\<close>). In a second run job
  \<open>n\<close> is enqueued with \<open>max_retries = -1\<close> (\<open>sys_n1\<close>) and claimed (\<open>sys_n2\<close>).
\<close>

definition input_t2 :: job_input where
  "input_t2 = \<lparr>in_id = Some ''t2'', in_command = Some ''exit 1'', in_max_retries = Some 2,
     in_priority = None, in_run_at = None\<rparr>"

definition job_new :: job where
  "job_new = job_run\<lparr>state := Pending, attempts := 0, updated_at := ''1970-01-01T00:00:00.000Z'',
     locked_by := None, lock_until := None\<rparr>"

definition job_failed :: job where
  "job_failed = job_run\<lparr>state := Failed, locked_by := None,
     run_at := Some ''1970-01-01T00:00:04.000Z'', lock_until := Some ''1970-01-01T00:00:04.000Z'',
     last_error := Some ''exit=1: Command failed: exit 1'',
     updated_at := ''1970-01-01T00:00:02.000Z''\<rparr>"

definition sys_0 :: system where
  "sys_0 = \<lparr>store = empty_db, currentJob = (\<lambda>w. None), claimed = {}\<rparr>"

definition sys_1 :: system where
  "sys_1 = sys_0\<lparr>store := empty_db\<lparr>jobs := [job_new]\<rparr>\<rparr>"

definition sys_2 :: system where
  "sys_2 = sys_1\<lparr>store := db_run, currentJob := (currentJob sys_1)(''w'' := Some job_run),
     claimed := {''t2''}\<rparr>"

definition sys_3 :: system where
  "sys_3 = sys_2\<lparr>store := db_run\<lparr>jobs := [job_failed]\<rparr>,
     currentJob := (currentJob sys_2)(''w'' := None)\<rparr>"

definition input_neg :: job_input where
  "input_neg = \<lparr>in_id = Some ''n'', in_command = Some ''true'', in_max_retries = Some (- 1),
     in_priority = None, in_run_at = None\<rparr>"

definition job_neg :: job where
  "job_neg = \<lparr>jid = ''n'', command = ''true'', state = Pending, attempts = 0, max_retries = - 1,
     created_at = ''1970-01-01T00:00:00.000Z'', updated_at = ''1970-01-01T00:00:00.000Z'',
     run_at = None, last_error = None, priority = 0, locked_by = None, lock_until = None\<rparr>"

definition job_neg_run :: job where
  "job_neg_run = job_neg\<lparr>state := Processing, locked_by := Some ''w'',
     lock_until := Some ''1970-01-01T00:01:01.000Z'', attempts := 1,
     updated_at := ''1970-01-01T00:00:01.000Z''\<rparr>"

definition sys_n1 :: system where
  "sys_n1 = sys_0\<lparr>store := empty_db\<lparr>jobs := [job_neg]\<rparr>\<rparr>"

definition sys_n2 :: system where
  "sys_n2 = sys_n1\<lparr>store := empty_db\<lparr>jobs := [job_neg_run]\<rparr>,
     currentJob := (currentJob sys_n1)(''w'' := Some job_neg_run), claimed := {''n''}\<rparr>"

text \<open>
  A third run, on a store whose config sets \<open>backoff_base\<close> to 10^13: job \<open>a\<close> is enqueued
  (\<open>sys_h1\<close>) and claimed by worker \<open>w\<close> at 00:01:00 (\<open>sys_h2\<close>); its command fails, the
  retry time is not a valid date and \<^verbatim>\<open>processJob\<close> throws (\<open>sys_h3\<close>); the clock is set back
  and job \<open>b\<close> is enqueued at 00:00:00 (\<open>sys_held\<close>).
\<close>

definition input_a :: job_input where
  "input_a = \<lparr>in_id = Some ''a'', in_command = Some ''true'', in_max_retries = None,
     in_priority = None, in_run_at = None\<rparr>"

definition input_b :: job_input where
  "input_b = \<lparr>in_id = Some ''b'', in_command = Some ''true'', in_max_retries = None,
     in_priority = None, in_run_at = None\<rparr>"

definition job_a0 :: job where
  "job_a0 = job_a\<lparr>state := Pending, attempts := 0, updated_at := ''1970-01-01T00:00:00.000Z'',
     locked_by := None, lock_until := None\<rparr>"

definition sys_h1 :: system where
  "sys_h1 = \<lparr>store = db_cfg\<lparr>jobs := [job_a0]\<rparr>, currentJob = (\<lambda>w. None), claimed = {}\<rparr>"

definition sys_h2 :: system where
  "sys_h2 = sys_h1\<lparr>store := db_cfg\<lparr>jobs := [job_a]\<rparr>,
     currentJob := (currentJob sys_h1)(''w'' := Some job_a), claimed := {''a''}\<rparr>"

definition sys_h3 :: system where
  "sys_h3 = sys_h2\<lparr>currentJob := (currentJob sys_h2)(''w'' := None)\<rparr>"

definition sys_held :: system where
  "sys_held = sys_h3\<lparr>store := db_held\<rparr>"




section \<open>Evaluation\<close>

text \<open>The defining equations that evaluate the operations on a concrete store.\<close>

lemmas eval_defs =
  Let_def empty_db_def db_cfg_def host0_def stamps_def nowISO_def validTime_def addSeconds_def backoff_def
  orNull_def
  update_where_def changes_def enqueue_def count_state_def status_def dlqRetry_def
  lastErrorText_def refreshLock_def eligible_def claim_order_def select_next_def
  claim_update_def reread_def claimJob_def processJob_def
  get_def getInt_def DEFAULTS_def objectPrototype_def parseInt10_def isWhiteSpace1_def
  isWhiteSpace2_def isWhiteSpace3_def isDigit_def digitValue_def stripSign_def signOf_def

section \<open>Config: properties\<close>

lemma parseInt10_zero: "parseInt10 ''0'' = Num 0"
  by (simp add: parseInt10_def isWhiteSpace1_def isDigit_def stripSign_def signOf_def digitValue_def)

lemma parseInt10_unparsable: "unparsable v \<Longrightarrow> parseInt10 v = NaN"
  by (auto simp: parseInt10_def unparsable_def Let_def split: list.splits)

text \<open>
  C7 (as stated): \<open>getInt key\<close> is 0 whenever the value is absent or cannot be parsed as an
  integer. The stored value \<open>abc\<close> refutes it: \<^verbatim>\<open>parseInt('abc', 10)\<close> is \<^verbatim>\<open>NaN\<close>.
\<close>

theorem getInt_unparsable_counterexample:
  "get (empty_db\<lparr>config := [''k'' \<mapsto> ''abc'']\<rparr>) ''k'' = Some (Text ''abc'') \<and> unparsable ''abc'' \<and>
   getInt (empty_db\<lparr>config := [''k'' \<mapsto> ''abc'']\<rparr>) ''k'' = NaN"
  by (simp add: getInt_def get_def parseInt10_def unparsable_def stripSign_def isWhiteSpace1_def
      isWhiteSpace2_def isWhiteSpace3_def isDigit_def empty_db_def)

text \<open>
  C7 (amended): \<open>getInt key\<close> is the stored value, or else the default, parsed as a decimal
  integer; it is 0 when the lookup finds neither a stored value nor a default, and it is
  \<^verbatim>\<open>NaN\<close> when the value cannot be parsed (a text without a digit after its white space
  and sign, or a value that the defaults object inherits).
\<close>

theorem getInt_spec:
  "(get db key = None \<longrightarrow> getInt db key = Num 0) \<and>
   (\<forall>v. get db key = Some (Text v) \<longrightarrow> getInt db key = parseInt10 v) \<and>
   (\<forall>v. get db key = Some (Text v) \<and> unparsable v \<longrightarrow> getInt db key = NaN) \<and>
   (get db key = Some Inherited \<longrightarrow> getInt db key = NaN)"
  by (simp add: getInt_def parseInt10_zero parseInt10_unparsable)

theorem getInt_spec_witness:
  "get empty_db ''nope'' = None \<and> getInt empty_db ''nope'' = Num 0 \<and>
   get empty_db ''max_retries'' = Some (Text ''3'') \<and> getInt empty_db ''max_retries'' = Num 3 \<and>
   get (empty_db\<lparr>config := [''k'' \<mapsto> ''abc'']\<rparr>) ''k'' = Some (Text ''abc'') \<and> unparsable ''abc'' \<and>
   getInt (empty_db\<lparr>config := [''k'' \<mapsto> ''abc'']\<rparr>) ''k'' = NaN \<and>
   get empty_db ''constructor'' = Some Inherited \<and> getInt empty_db ''constructor'' = NaN"
proof -
  have a: "get empty_db ''nope'' = None"
    by (simp add: get_def empty_db_def DEFAULTS_def objectPrototype_def)
  have b: "get empty_db ''max_retries'' = Some (Text ''3'')"
    by (simp add: get_def empty_db_def DEFAULTS_def)
  have c: "get (empty_db\<lparr>config := [''k'' \<mapsto> ''abc'']\<rparr>) ''k'' = Some (Text ''abc'')"
    by (simp add: get_def empty_db_def)
  have d: "unparsable ''abc''"
    by (simp add: unparsable_def stripSign_def isWhiteSpace1_def isWhiteSpace2_def
        isWhiteSpace3_def isDigit_def)
  have e: "parseInt10 ''3'' = Num 3"
    by (simp add: parseInt10_def isWhiteSpace1_def isDigit_def stripSign_def signOf_def digitValue_def)
  have f: "get empty_db ''constructor'' = Some Inherited"
    by (simp add: get_def empty_db_def DEFAULTS_def objectPrototype_def)
  from getInt_spec [of empty_db "''nope''"] a
  have 1: "getInt empty_db ''nope'' = Num 0" by simp
  from getInt_spec [of empty_db "''max_retries''"] b e
  have 2: "getInt empty_db ''max_retries'' = Num 3" by simp
  from getInt_spec [of "empty_db\<lparr>config := [''k'' \<mapsto> ''abc'']\<rparr>" "''k''"] c d
  have 3: "getInt (empty_db\<lparr>config := [''k'' \<mapsto> ''abc'']\<rparr>) ''k'' = NaN" by blast
  from getInt_spec [of empty_db "''constructor''"] f
  have 4: "getInt empty_db ''constructor'' = NaN" by blast
  from a b c d f 1 2 3 4 show ?thesis by blast
qed

section \<open>The claim protocol: properties\<close>

lemma first_by_None: "first_by prec xs = None \<longleftrightarrow> xs = []"
  by (cases xs) (auto split: option.splits)

lemma first_by_in: "first_by prec xs = Some y \<Longrightarrow> y \<in> set xs"
  by (induction xs arbitrary: y) (auto split: option.splits if_splits)

lemma first_by_minimal:
  assumes asym: "\<And>a b. prec a b \<Longrightarrow> \<not> prec b a"
      and negtrans: "\<And>a b c. \<not> prec a b \<Longrightarrow> \<not> prec b c \<Longrightarrow> \<not> prec a c"
  shows "first_by prec xs = Some y \<Longrightarrow> x \<in> set xs \<Longrightarrow> \<not> prec x y"
proof (induction xs arbitrary: y)
  case Nil
  then show ?case by simp
next
  case (Cons a xs)
  show ?case
  proof (cases "first_by prec xs")
    case None
    then have "xs = []" by (simp add: first_by_None)
    with Cons.prems None show ?thesis using asym by auto
  next
    case (Some m)
    note IH = Cons.IH [OF Some]
    show ?thesis
    proof (cases "prec m a")
      case True
      with Some Cons.prems have y: "y = m" by simp
      from Cons.prems(2) have "x = a \<or> x \<in> set xs" by auto
      then show ?thesis using True IH asym y by blast
    next
      case False
      with Some Cons.prems have y: "y = a" by simp
      from Cons.prems(2) have "x = a \<or> x \<in> set xs" by auto
      then show ?thesis using False IH negtrans asym y by blast
    qed
  qed
qed

lemma map_if_absent: "\<forall>y\<in>set xs. \<not> P y \<Longrightarrow> map (\<lambda>j. if P j then f j else j) xs = xs"
  by (induction xs) auto

lemma zip_same_no_change: "filter (\<lambda>p. fst p \<noteq> snd p) (zip xs xs) = []"
  by (induction xs) auto

lemma exactly_one_changed:
  "distinct (map jid xs) \<Longrightarrow> c \<in> set xs \<Longrightarrow> f c \<noteq> c \<Longrightarrow>
   length (filter (\<lambda>p. fst p \<noteq> snd p) (zip xs (map (\<lambda>j. if jid j = jid c then f j else j) xs))) = 1"
proof (induction xs)
  case Nil
  then show ?case by simp
next
  case (Cons a xs)
  show ?case
  proof (cases "a = c")
    case True
    with Cons.prems have "\<forall>y\<in>set xs. jid y \<noteq> jid c" by (force simp: image_iff)
    then have "map (\<lambda>j. if jid j = jid c then f j else j) xs = xs"
      by (rule map_if_absent)
    with True Cons.prems(3) show ?thesis by (simp add: zip_same_no_change)
  next
    case False
    with Cons.prems have "c \<in> set xs" "jid a \<noteq> jid c" by auto
    with Cons show ?thesis by simp
  qed
qed

lemma update_by_key:
  "distinct (map jid xs) \<Longrightarrow> c \<in> set xs \<Longrightarrow>
   map (\<lambda>j. if jid j = jid c then f j else j) xs = map (\<lambda>j. if j = c then f j else j) xs"
  by (rule map_cong) (auto simp: distinct_map inj_on_def)

lemma claim_order_asym: "claim_order a b \<Longrightarrow> \<not> claim_order b a"
  by (auto simp: claim_order_def)

lemma claim_order_negtrans: "\<not> claim_order a b \<Longrightarrow> \<not> claim_order b c \<Longrightarrow> \<not> claim_order a c"
  by (auto simp: claim_order_def)

lemma claim_order_minimal:
  "first_by claim_order xs = Some y \<Longrightarrow> x \<in> set xs \<Longrightarrow> \<not> claim_order x y"
  using first_by_minimal [of claim_order xs y x] claim_order_asym claim_order_negtrans by blast

lemma newest_minimal:
  "first_by (\<lambda>a b. updated_at b < updated_at a) xs = Some y \<Longrightarrow> x \<in> set xs \<Longrightarrow>
   updated_at x \<le> updated_at y"
  using first_by_minimal [of "\<lambda>a b. updated_at b < updated_at a" xs y x] by fastforce

lemma reachable_sys_h2: "reachable host0 sys_h2"
proof -
  have i: "jobs db_cfg = []" "dlq db_cfg = []" by (simp_all add: db_cfg_def empty_db_def)
  have "enqueue host0 0 ''V1StGXR8'' input_a db_cfg = Inr (''a'', db_cfg\<lparr>jobs := [job_a0]\<rparr>)"
    by (simp add: eval_defs input_a_def job_a0_def job_a_def)
  from reachable.enqueue [OF reachable.init [OF i, of host0]] this
  have r1: "reachable host0 sys_h1" by (simp add: sys_h1_def)
  have a: "currentJob sys_h1 ''w'' = None" by (simp add: sys_h1_def)
  have b: "claimJob host0 ''w'' 60000 (store sys_h1) = Inr (Some job_a, db_cfg\<lparr>jobs := [job_a]\<rparr>)"
    by (simp add: eval_defs sys_h1_def job_a0_def job_a_def)
  have c: "select_next (nowISO host0 60000) (store sys_h1) = Some ''a''"
    by (simp add: eval_defs sys_h1_def job_a0_def job_a_def)
  have d: "claimed sys_h1 = {}" by (simp add: sys_h1_def)
  from reachable.claim [OF r1 a b] show ?thesis by (simp add: sys_h2_def c d)
qed

lemma reachable_sys_held: "reachable host0 sys_held"
proof -
  note r2 = reachable_sys_h2
  have e: "currentJob sys_h2 ''w'' = Some job_a" by (simp add: sys_h2_def)
  have f: "processJob host0 job_a (ExecFail ''Command failed: false'' '''' ''1'') 61000 61000
      (store sys_h2) = Inl RangeError"
    by (simp add: eval_defs sys_h2_def job_a_def)
  from reachable.resolve_thrown [OF r2 e f] have r3: "reachable host0 sys_h3"
    by (simp add: sys_h3_def)
  have g: "enqueue host0 0 ''Uakgb_J5'' input_b (store sys_h3) = Inr (''b'', db_held)"
    by (simp add: eval_defs sys_h3_def sys_h2_def input_b_def job_a_def job_b_def db_held_def)
  from reachable.enqueue [OF r3 g] show ?thesis by (simp add: sys_held_def)
qed

text \<open>
  C1 (as stated): for every database state the claim returns the claimed row. In
  \<open>db_held\<close>, the store of the reachable state \<open>sys_held\<close>, worker \<open>w\<close> holds no job in
  \<^verbatim>\<open>currentJob\<close>, but the row of \<open>job_a\<close> is still \<open>processing\<close> and locked by \<open>w\<close>, with an
  \<open>updated_at\<close> later than the clock reading of the claim: the UPDATE claims \<open>job_b\<close>, the
  re-read returns \<open>job_a\<close>.
\<close>

theorem claimJob_returns_held_row_counterexample:
  "reachable host0 sys_held \<and> store sys_held = db_held \<and> currentJob sys_held ''w'' = None \<and>
   distinct (map jid (jobs db_held)) \<and>
   claimJob host0 ''w'' 1000 db_held =
     Inr (Some job_a,
          db_held\<lparr>jobs :=
            [job_a, job_b\<lparr>state := Processing, locked_by := Some ''w'',
                          lock_until := Some ''1970-01-01T00:01:01.000Z'',
                          attempts := 1, updated_at := ''1970-01-01T00:00:01.000Z''\<rparr>]\<rparr>)"
  using reachable_sys_held
  by (simp add: eval_defs job_a_def job_b_def db_held_def sys_held_def sys_h3_def sys_h2_def)

text \<open>
  C1 (amended): in a store whose job ids are unique (the primary key), and in which every
  other row that the worker holds in state \<open>processing\<close> has an \<open>updated_at\<close> before the
  clock reading \<open>now\<close> of the claim, with \<open>now\<close> plus 60 seconds a valid date: when no row
  is eligible (state \<open>pending\<close> or \<open>failed\<close>, \<open>run_at\<close> null or at most \<open>now\<close>, \<open>lock_until\<close>
  null or at most \<open>now\<close>) the claim returns null and leaves the store as it is; otherwise it
  picks an eligible row \<open>c\<close> of highest priority and, among those, of least \<open>created_at\<close>,
  sets its state to \<open>processing\<close>, \<open>locked_by\<close> to the worker, \<open>lock_until\<close> to \<open>now\<close> plus 60
  seconds, adds one to \<open>attempts\<close>, sets \<open>updated_at\<close> to \<open>now\<close>, changes exactly this one
  row and returns it.
\<close>

theorem claimJob_spec:
  assumes pk: "distinct (map jid (jobs db))"
      and older: "\<forall>j\<in>set (jobs db). locked_by j = Some w \<and> state j = Processing \<longrightarrow> updated_at j < nowISO h t"
      and lease: "addSeconds h (nowISO h t) 60 = Inr lockUntil"
  shows "((\<forall>j\<in>set (jobs db). \<not> eligible (nowISO h t) j) \<longrightarrow> claimJob h w t db = Inr (None, db)) \<and>
         ((\<exists>j\<in>set (jobs db). eligible (nowISO h t) j) \<longrightarrow>
           (\<exists>c\<in>set (jobs db). eligible (nowISO h t) c \<and>
              (\<forall>j\<in>set (jobs db). eligible (nowISO h t) j \<longrightarrow>
                 priority j \<le> priority c \<and> (priority j = priority c \<longrightarrow> created_at c \<le> created_at j)) \<and>
              claimJob h w t db =
                Inr (Some (c\<lparr>state := Processing, locked_by := Some w,
                             lock_until := Some lockUntil,
                             attempts := attempts c + 1, updated_at := nowISO h t\<rparr>),
                     db\<lparr>jobs := map (\<lambda>j. if j = c
                            then c\<lparr>state := Processing, locked_by := Some w,
                                   lock_until := Some lockUntil,
                                   attempts := attempts c + 1, updated_at := nowISO h t\<rparr>
                            else j) (jobs db)\<rparr>) \<and>
              length (filter (\<lambda>p. fst p \<noteq> snd p)
                (zip (jobs db) (map (\<lambda>j. if j = c
                            then c\<lparr>state := Processing, locked_by := Some w,
                                   lock_until := Some lockUntil,
                                   attempts := attempts c + 1, updated_at := nowISO h t\<rparr>
                            else j) (jobs db)))) = 1))"
proof (intro conjI impI)
  assume "\<forall>j\<in>set (jobs db). \<not> eligible (nowISO h t) j"
  then have "filter (eligible (nowISO h t)) (jobs db) = []" by (simp add: filter_empty_conv)
  then show "claimJob h w t db = Inr (None, db)"
    by (simp add: claimJob_def select_next_def lease)
next
  let ?now = "nowISO h t"
  let ?f = "claim_update w lockUntil ?now"
  let ?el = "filter (eligible ?now) (jobs db)"
  assume "\<exists>j\<in>set (jobs db). eligible ?now j"
  then have "?el \<noteq> []" by (simp add: filter_empty_conv)
  then obtain c where c: "first_by claim_order ?el = Some c"
    using first_by_None [of claim_order ?el] by (cases "first_by claim_order ?el") auto
  from first_by_in [OF c] have cin: "c \<in> set (jobs db)" and cel: "eligible ?now c" by auto
  have best: "\<forall>j\<in>set (jobs db). eligible ?now j \<longrightarrow>
      priority j \<le> priority c \<and> (priority j = priority c \<longrightarrow> created_at c \<le> created_at j)"
  proof (intro ballI impI)
    fix j assume "j \<in> set (jobs db)" "eligible ?now j"
    then have "j \<in> set ?el" by simp
    from claim_order_minimal [OF c this]
    show "priority j \<le> priority c \<and> (priority j = priority c \<longrightarrow> created_at c \<le> created_at j)"
      by (auto simp: claim_order_def)
  qed
  let ?xs' = "map (\<lambda>j. if jid j = jid c then ?f j else j) (jobs db)"
  let ?Q = "\<lambda>j. locked_by j = Some w \<and> state j = Processing"
  have fc_in: "?f c \<in> set (filter ?Q ?xs')"
    using cin by (auto simp: claim_update_def)
  have "filter ?Q ?xs' \<noteq> []"
  proof
    assume e: "filter ?Q ?xs' = []"
    from fc_in show False unfolding e by simp
  qed
  then obtain y where y: "first_by (\<lambda>a b. updated_at b < updated_at a) (filter ?Q ?xs') = Some y"
    using first_by_None [of "\<lambda>a b. updated_at b < updated_at a" "filter ?Q ?xs'"]
    by (cases "first_by (\<lambda>a b. updated_at b < updated_at a) (filter ?Q ?xs')") auto
  have "updated_at (?f c) \<le> updated_at y"
    by (rule newest_minimal [OF y fc_in])
  then have recent: "?now \<le> updated_at y" by (simp add: claim_update_def)
  from first_by_in [OF y] have yQ: "?Q y" and "y \<in> set ?xs'" by auto
  then obtain j where j: "j \<in> set (jobs db)" "y = (if jid j = jid c then ?f j else j)" by auto
  have yfc: "y = ?f c"
  proof (cases "jid j = jid c")
    case True
    with pk cin j(1) have "j = c" by (auto simp: distinct_map inj_on_def)
    with j True show ?thesis by simp
  next
    case False
    with j yQ older recent show ?thesis by auto
  qed
  have ch: "changes (\<lambda>j. jid j = jid c) db \<noteq> 0"
    using cin by (auto simp: changes_def filter_empty_conv)
  have res: "claimJob h w t db = Inr (Some (?f c), db\<lparr>jobs := ?xs'\<rparr>)"
    using c y yfc ch
    by (simp add: claimJob_def select_next_def update_where_def reread_def Let_def lease)
  have fne: "?f c \<noteq> c"
  proof
    assume "?f c = c"
    then have "state (?f c) = state c" by simp
    with cel show False by (auto simp: claim_update_def eligible_def)
  qed
  have one: "length (filter (\<lambda>p. fst p \<noteq> snd p) (zip (jobs db) ?xs')) = 1"
    using exactly_one_changed [of "jobs db" c ?f] pk cin fne by simp
  have xs'_eq: "?xs' = map (\<lambda>j. if j = c then ?f c else j) (jobs db)"
    using update_by_key [OF pk cin, of ?f] by (simp cong: if_cong)
  have fc: "?f c = c\<lparr>state := Processing, locked_by := Some w, lock_until := Some lockUntil,
                      attempts := attempts c + 1, updated_at := ?now\<rparr>"
    by (simp add: claim_update_def)
  show "\<exists>c\<in>set (jobs db). eligible ?now c \<and>
          (\<forall>j\<in>set (jobs db). eligible ?now j \<longrightarrow>
             priority j \<le> priority c \<and> (priority j = priority c \<longrightarrow> created_at c \<le> created_at j)) \<and>
          claimJob h w t db =
            Inr (Some (c\<lparr>state := Processing, locked_by := Some w,
                         lock_until := Some lockUntil,
                         attempts := attempts c + 1, updated_at := ?now\<rparr>),
                 db\<lparr>jobs := map (\<lambda>j. if j = c
                        then c\<lparr>state := Processing, locked_by := Some w,
                               lock_until := Some lockUntil,
                               attempts := attempts c + 1, updated_at := ?now\<rparr>
                        else j) (jobs db)\<rparr>) \<and>
          length (filter (\<lambda>p. fst p \<noteq> snd p)
            (zip (jobs db) (map (\<lambda>j. if j = c
                        then c\<lparr>state := Processing, locked_by := Some w,
                               lock_until := Some lockUntil,
                               attempts := attempts c + 1, updated_at := ?now\<rparr>
                        else j) (jobs db)))) = 1"
    using cin cel best res one unfolding xs'_eq fc by blast
qed

theorem claimJob_spec_witness:
  "distinct (map jid (jobs db_prio)) \<and>
   list_all (\<lambda>j. locked_by j = Some ''w'' \<and> state j = Processing \<longrightarrow>
       updated_at j < nowISO host0 1000) (jobs db_prio) \<and>
   addSeconds host0 (nowISO host0 1000) 60 = Inr ''1970-01-01T00:01:01.000Z'' \<and>
   (\<exists>j\<in>set (jobs db_prio). eligible (nowISO host0 1000) j) \<and>
   claimJob host0 ''w'' 1000 db_prio =
     Inr (Some (job_hi\<lparr>state := Processing, locked_by := Some ''w'',
                       lock_until := Some ''1970-01-01T00:01:01.000Z'',
                       attempts := 1, updated_at := ''1970-01-01T00:00:01.000Z''\<rparr>),
          db_prio\<lparr>jobs :=
            [job_b, job_hi\<lparr>state := Processing, locked_by := Some ''w'',
                           lock_until := Some ''1970-01-01T00:01:01.000Z'',
                           attempts := 1, updated_at := ''1970-01-01T00:00:01.000Z''\<rparr>]\<rparr>) \<and>
   (\<exists>c\<in>set (jobs db_prio).
      length (filter (\<lambda>p. fst p \<noteq> snd p)
        (zip (jobs db_prio) (map (\<lambda>j. if j = c
            then c\<lparr>state := Processing, locked_by := Some ''w'',
                   lock_until := Some ''1970-01-01T00:01:01.000Z'',
                   attempts := attempts c + 1, updated_at := nowISO host0 1000\<rparr>
            else j) (jobs db_prio)))) = 1)"
proof -
  have pk: "distinct (map jid (jobs db_prio))"
    by (simp add: db_prio_def empty_db_def job_b_def job_hi_def)
  have older: "\<forall>j\<in>set (jobs db_prio). locked_by j = Some ''w'' \<and> state j = Processing \<longrightarrow>
      updated_at j < nowISO host0 1000"
    by (simp add: db_prio_def empty_db_def job_b_def job_hi_def)
  have lease: "addSeconds host0 (nowISO host0 1000) 60 = Inr ''1970-01-01T00:01:01.000Z''"
    by (simp add: eval_defs)
  have el: "\<exists>j\<in>set (jobs db_prio). eligible (nowISO host0 1000) j"
    by (simp add: db_prio_def empty_db_def job_b_def eligible_def)
  from claimJob_spec [OF pk older lease] el
  have one: "\<exists>c\<in>set (jobs db_prio).
      length (filter (\<lambda>p. fst p \<noteq> snd p)
        (zip (jobs db_prio) (map (\<lambda>j. if j = c
            then c\<lparr>state := Processing, locked_by := Some ''w'',
                   lock_until := Some ''1970-01-01T00:01:01.000Z'',
                   attempts := attempts c + 1, updated_at := nowISO host0 1000\<rparr>
            else j) (jobs db_prio)))) = 1"
    by blast
  have ret: "claimJob host0 ''w'' 1000 db_prio =
     Inr (Some (job_hi\<lparr>state := Processing, locked_by := Some ''w'',
                       lock_until := Some ''1970-01-01T00:01:01.000Z'',
                       attempts := 1, updated_at := ''1970-01-01T00:00:01.000Z''\<rparr>),
          db_prio\<lparr>jobs :=
            [job_b, job_hi\<lparr>state := Processing, locked_by := Some ''w'',
                           lock_until := Some ''1970-01-01T00:01:01.000Z'',
                           attempts := 1, updated_at := ''1970-01-01T00:00:01.000Z''\<rparr>]\<rparr>)"
    by (simp add: eval_defs job_b_def job_hi_def db_prio_def)
  from older have older': "list_all (\<lambda>j. locked_by j = Some ''w'' \<and> state j = Processing \<longrightarrow>
       updated_at j < nowISO host0 1000) (jobs db_prio)"
    by (simp add: list_all_iff)
  from pk older' lease el ret one show ?thesis by blast
qed

section \<open>Outcome resolution: properties\<close>

text \<open>
  On text whose characters are of one byte each, \<open>slice0\<close> is \<open>take\<close>; a longer character
  counts once.
\<close>

lemma slice0_ascii:
  "\<forall>c\<in>set s. (of_char c :: nat) < 0x80 \<Longrightarrow> slice0 h n s = take n s"
proof (induction s arbitrary: n)
  case Nil
  then show ?case by simp
next
  case (Cons c s)
  then show ?case by (cases n) simp_all
qed








text \<open>
  What the amended statement leaves out: when the retry time is not a valid date, and when
  \<open>dlq\<close> already has the row, \<^verbatim>\<open>processJob\<close> throws and writes nothing.
\<close>

lemma processJob_throws:
  assumes "res = ExecFail err stderr code"
  shows "(if attempts job = 0 then 1 else attempts job) < max_retries job \<Longrightarrow>
           addSeconds h (nowISO h t)
             ((case getInt db ''backoff_base'' of NaN \<Rightarrow> 2 | Num n \<Rightarrow> if n = 0 then 2 else n)
                ^ nat (if attempts job = 0 then 1 else attempts job)) = Inl e \<Longrightarrow>
           processJob h job res t t' db = Inl e"
    and "\<not> (if attempts job = 0 then 1 else attempts job) < max_retries job \<Longrightarrow>
           ''dlq_'' @ jid job \<in> dlq_id ` set (dlq db) \<Longrightarrow>
           processJob h job res t t' db = Inl SqliteError"
  using assms by (simp_all add: processJob_def Let_def backoff_def)

section \<open>Frame of the worker's updates\<close>

lemma frame_map_if: "(\<And>j. frame (f j) = frame j) \<Longrightarrow> map frame (map (\<lambda>j. if P j then f j else j) xs) = map frame xs"
  by (induction xs) auto

lemma frame_update_where:
  "(\<And>j. frame (f j) = frame j) \<Longrightarrow> map frame (jobs (update_where P f db)) = map frame (jobs db)"
  by (simp add: update_where_def frame_map_if)
text \<open>
  C9: the claim update, the lock refresher and every outcome-resolution update leave
  \<open>id\<close>, \<open>command\<close>, \<open>priority\<close>, \<open>max_retries\<close> and \<open>created_at\<close> of every job row as they
  are (and add or remove no row): what they modify is among \<open>state\<close>, \<open>attempts\<close>,
  \<open>run_at\<close>, \<open>updated_at\<close>, \<open>last_error\<close>, \<open>locked_by\<close> and \<open>lock_until\<close>.
\<close>

theorem frame_preserved:
  "(\<forall>r d. claimJob h w t db = Inr (r, d) \<longrightarrow> map frame (jobs d) = map frame (jobs db)) \<and>
   map frame (jobs (refreshLock h w cj t db)) = map frame (jobs db) \<and>
   (\<forall>db'. processJob h job res t t' db = Inr db' \<longrightarrow> map frame (jobs db') = map frame (jobs db))"
proof (intro conjI allI impI)
  fix r d assume "claimJob h w t db = Inr (r, d)"
  then show "map frame (jobs d) = map frame (jobs db)"
    by (auto simp: claimJob_def Let_def frame_update_where claim_update_def frame_def
        split: option.splits sum.splits if_splits)
next
  show "map frame (jobs (refreshLock h w cj t db)) = map frame (jobs db)"
    by (simp add: refreshLock_def Let_def frame_update_where frame_def
        split: option.splits sum.splits)
next
  fix db' assume "processJob h job res t t' db = Inr db'"
  then show "map frame (jobs db') = map frame (jobs db)"
    by (auto simp: processJob_def Let_def update_where_def frame_map_if frame_def
        split: exec_result.splits if_splits sum.splits)
qed
theorem frame_preserved_witness:
  "processJob host0 job_run (ExecFail ''Command failed: exit 1'' '''' ''1'') 2000 2000 db_run =
     Inr (db_run\<lparr>jobs := [job_run\<lparr>state := Failed, locked_by := None,
                                  run_at := Some ''1970-01-01T00:00:04.000Z'',
                                  lock_until := Some ''1970-01-01T00:00:04.000Z'',
                                  last_error := Some ''exit=1: Command failed: exit 1'',
                                  updated_at := ''1970-01-01T00:00:02.000Z''\<rparr>]\<rparr>) \<and>
   map frame (jobs (db_run\<lparr>jobs := [job_run\<lparr>state := Failed, locked_by := None,
                                  run_at := Some ''1970-01-01T00:00:04.000Z'',
                                  lock_until := Some ''1970-01-01T00:00:04.000Z'',
                                  last_error := Some ''exit=1: Command failed: exit 1'',
                                  updated_at := ''1970-01-01T00:00:02.000Z''\<rparr>]\<rparr>)) =
     [(''t2'', ''exit 1'', 0, 2, ''1970-01-01T00:00:00.000Z'')] \<and>
   claimJob host0 ''w'' 1000 (empty_db\<lparr>jobs := [job_new]\<rparr>) = Inr (Some job_run, db_run) \<and>
   map frame (jobs db_run) = map frame (jobs (empty_db\<lparr>jobs := [job_new]\<rparr>)) \<and>
   map frame (jobs (refreshLock host0 ''w'' (Some job_run) 2000 db_run)) = map frame (jobs db_run)"
proof -
  have cl: "claimJob host0 ''w'' 1000 (empty_db\<lparr>jobs := [job_new]\<rparr>) = Inr (Some job_run, db_run)"
    by (simp add: eval_defs job_new_def job_run_def db_run_def)
  have run: "processJob host0 job_run (ExecFail ''Command failed: exit 1'' '''' ''1'') 2000 2000 db_run =
     Inr (db_run\<lparr>jobs := [job_run\<lparr>state := Failed, locked_by := None,
                                  run_at := Some ''1970-01-01T00:00:04.000Z'',
                                  lock_until := Some ''1970-01-01T00:00:04.000Z'',
                                  last_error := Some ''exit=1: Command failed: exit 1'',
                                  updated_at := ''1970-01-01T00:00:02.000Z''\<rparr>]\<rparr>)"
    by (simp add: eval_defs db_run_def job_run_def)
  have fr: "map frame (jobs db_run) = [(''t2'', ''exit 1'', 0, 2, ''1970-01-01T00:00:00.000Z'')]"
    by (simp add: frame_def db_run_def job_run_def empty_db_def)
  note inst = frame_preserved [where h = host0 and w = "''w''" and job = job_run and t' = 2000
      and res = "ExecFail ''Command failed: exit 1'' '''' ''1''"]
  from inst [where t = 2000 and db = db_run and cj = "Some job_run"] run fr
  have 1: "map frame (jobs (db_run\<lparr>jobs := [job_run\<lparr>state := Failed, locked_by := None,
                                  run_at := Some ''1970-01-01T00:00:04.000Z'',
                                  lock_until := Some ''1970-01-01T00:00:04.000Z'',
                                  last_error := Some ''exit=1: Command failed: exit 1'',
                                  updated_at := ''1970-01-01T00:00:02.000Z''\<rparr>]\<rparr>)) =
     [(''t2'', ''exit 1'', 0, 2, ''1970-01-01T00:00:00.000Z'')]"
    by simp
  from inst [where t = 2000 and db = db_run and cj = "Some job_run"]
  have 2: "map frame (jobs (refreshLock host0 ''w'' (Some job_run) 2000 db_run)) = map frame (jobs db_run)"
    by blast
  from inst [where t = 1000 and db = "empty_db\<lparr>jobs := [job_new]\<rparr>"] cl
  have 3: "map frame (jobs db_run) = map frame (jobs (empty_db\<lparr>jobs := [job_new]\<rparr>))"
    by blast
  from run cl 1 2 3 show ?thesis by blast
qed

section \<open>Queue API: properties\<close>

text \<open>
  C10: when the \<open>run_at\<close> of the input is absent or the empty string, a successful
  \<^verbatim>\<open>enqueue\<close> appends a pending row whose \<open>run_at\<close> is null and which the claim predicate
  accepts at every clock reading; and \<^verbatim>\<open>enqueue\<close> succeeds whenever the command is present
  and the id is not yet a primary key of \<open>jobs\<close>.
\<close>

theorem enqueue_falsy_run_at:
  assumes "in_run_at job = None \<or> in_run_at job = Some ''''"
  shows "(\<forall>i db'. enqueue h t nanoid job db = Inr (i, db') \<longrightarrow>
            (\<exists>r. db' = db\<lparr>jobs := jobs db @ [r]\<rparr> \<and> jid r = i \<and> state r = Pending \<and>
                 run_at r = None \<and> (\<forall>now. eligible now r))) \<and>
         (in_command job \<noteq> None \<and>
          (case orNull (in_id job) of Some s \<Rightarrow> s | None \<Rightarrow> ''job_'' @ nanoid) \<notin> jid ` set (jobs db) \<longrightarrow>
            (\<exists>i db'. enqueue h t nanoid job db = Inr (i, db')))"
proof -
  from assms have ra: "orNull (in_run_at job) = None" by (auto simp: orNull_def)
  show ?thesis
  proof (cases "in_command job")
    case None
    then show ?thesis by (simp add: enqueue_def Let_def)
  next
    case (Some cmd)
    define ident where "ident = (case orNull (in_id job) of Some s \<Rightarrow> s | None \<Rightarrow> ''job_'' @ nanoid)"
    define row where "row =
      \<lparr>jid = ident, command = cmd, state = Pending, attempts = 0,
        max_retries = (case in_max_retries job of Some n \<Rightarrow> n | None \<Rightarrow> 3),
        created_at = nowISO h t, updated_at = nowISO h t, run_at = None, last_error = None,
        priority = (case in_priority job of Some n \<Rightarrow> n | None \<Rightarrow> 0),
        locked_by = None, lock_until = None\<rparr>"
    have e: "enqueue h t nanoid job db =
        (if ident \<in> jid ` set (jobs db) then Inl SqliteError
         else Inr (ident, db\<lparr>jobs := jobs db @ [row]\<rparr>))"
      by (simp add: enqueue_def Let_def Some ra ident_def row_def)
    have r: "jid row = ident" "state row = Pending" "run_at row = None" "\<forall>now. eligible now row"
      by (simp_all add: row_def eligible_def)
    show ?thesis unfolding e ident_def [symmetric] using r by auto
  qed
qed

theorem enqueue_falsy_run_at_witness:
  "(in_run_at input_now = None \<or> in_run_at input_now = Some '''') \<and>
   enqueue host0 0 ''V1StGXR8'' input_now empty_db =
     Inr (''job_V1StGXR8'', empty_db\<lparr>jobs :=
       [\<lparr>jid = ''job_V1StGXR8'', command = ''echo ok'', state = Pending, attempts = 0,
         max_retries = 3, created_at = ''1970-01-01T00:00:00.000Z'',
         updated_at = ''1970-01-01T00:00:00.000Z'', run_at = None, last_error = None,
         priority = 0, locked_by = None, lock_until = None\<rparr>]\<rparr>) \<and>
   (\<exists>r. empty_db\<lparr>jobs :=
       [\<lparr>jid = ''job_V1StGXR8'', command = ''echo ok'', state = Pending, attempts = 0,
         max_retries = 3, created_at = ''1970-01-01T00:00:00.000Z'',
         updated_at = ''1970-01-01T00:00:00.000Z'', run_at = None, last_error = None,
         priority = 0, locked_by = None, lock_until = None\<rparr>]\<rparr> = empty_db\<lparr>jobs := jobs empty_db @ [r]\<rparr> \<and>
      jid r = ''job_V1StGXR8'' \<and> state r = Pending \<and> run_at r = None \<and> (\<forall>now. eligible now r))"
proof -
  have a: "in_run_at input_now = None \<or> in_run_at input_now = Some ''''"
    by (simp add: input_now_def)
  have b: "enqueue host0 0 ''V1StGXR8'' input_now empty_db =
     Inr (''job_V1StGXR8'', empty_db\<lparr>jobs :=
       [\<lparr>jid = ''job_V1StGXR8'', command = ''echo ok'', state = Pending, attempts = 0,
         max_retries = 3, created_at = ''1970-01-01T00:00:00.000Z'',
         updated_at = ''1970-01-01T00:00:00.000Z'', run_at = None, last_error = None,
         priority = 0, locked_by = None, lock_until = None\<rparr>]\<rparr>)"
    by (simp add: eval_defs input_now_def)
  from enqueue_falsy_run_at [OF a, where h = host0 and t = 0 and nanoid = "''V1StGXR8''"
      and db = empty_db] a b
  show ?thesis by blast
qed

lemma oldest_created_at:
  assumes "xs \<noteq> []"
  shows "\<exists>y. first_by (\<lambda>a b. created_at a < created_at b) xs = Some y \<and>
             created_at y = Min (created_at ` set xs)"
proof -
  from assms obtain y where y: "first_by (\<lambda>a b. created_at a < created_at b) xs = Some y"
    using first_by_None [of "\<lambda>a b. created_at a < created_at b" xs]
    by (cases "first_by (\<lambda>a b. created_at a < created_at b) xs") auto
  have le: "created_at y \<le> created_at x" if "x \<in> set xs" for x
    using first_by_minimal [of "\<lambda>a b. created_at a < created_at b" xs y x] y that by fastforce
  have yin: "created_at y \<in> created_at ` set xs"
    using first_by_in [OF y] by simp
  have "Min (created_at ` set xs) = created_at y"
  proof (rule Min_eqI)
    show "finite (created_at ` set xs)" by simp
    show "created_at y \<le> z" if "z \<in> created_at ` set xs" for z
      using that le by auto
    show "created_at y \<in> created_at ` set xs" by (rule yin)
  qed
  with y show ?thesis by simp
qed
text \<open>
  C6: in a store whose \<open>created_at\<close> values are not empty, and with a host whose ISO string
  for ten seconds ago is not empty, \<^verbatim>\<open>status\<close> returns for each of the five states the
  number of job rows in it (0 when there is none), as \<open>active_workers\<close> the number of
  worker rows whose \<open>heartbeat_at\<close> is not before the clock reading minus ten seconds, and
  as \<open>oldest_pending\<close> the least \<open>created_at\<close> of the pending rows, or null when no row is
  pending.
\<close>

theorem status_spec:
  assumes created: "\<forall>j\<in>set (jobs db). created_at j \<noteq> []"
      and threshold: "toISOString h (t - 10000) \<noteq> []"
  shows "pending (status h t db) = card {i. i < length (jobs db) \<and> state (jobs db ! i) = Pending} \<and>
         processing (status h t db) = card {i. i < length (jobs db) \<and> state (jobs db ! i) = Processing} \<and>
         completed (status h t db) = card {i. i < length (jobs db) \<and> state (jobs db ! i) = Completed} \<and>
         failed (status h t db) = card {i. i < length (jobs db) \<and> state (jobs db ! i) = Failed} \<and>
         dead (status h t db) = card {i. i < length (jobs db) \<and> state (jobs db ! i) = Dead} \<and>
         active_workers (status h t db) =
           card {i. i < length (workers db) \<and>
                    toISOString h (t - 10000) \<le> heartbeat_at (workers db ! i)} \<and>
         oldest_pending (status h t db) =
           (if \<exists>j\<in>set (jobs db). state j = Pending
            then Some (Min (created_at ` {j \<in> set (jobs db). state j = Pending}))
            else None)"
proof -
  have counts: "\<And>s. count_state s db = card {i. i < length (jobs db) \<and> state (jobs db ! i) = s}"
    by (simp add: count_state_def length_filter_conv_card)
  have hb: "\<And>w. (heartbeat_at w \<noteq> [] \<and> toISOString h (t - 10000) \<le> heartbeat_at w) =
      (toISOString h (t - 10000) \<le> heartbeat_at w)"
    using threshold by auto
  have active: "active_workers (status h t db) =
      card {i. i < length (workers db) \<and> toISOString h (t - 10000) \<le> heartbeat_at (workers db ! i)}"
    by (simp add: status_def Let_def hb length_filter_conv_card)
  let ?ps = "filter (\<lambda>j. state j = Pending) (jobs db)"
  have oldest: "oldest_pending (status h t db) =
      (if \<exists>j\<in>set (jobs db). state j = Pending
       then Some (Min (created_at ` {j \<in> set (jobs db). state j = Pending})) else None)"
  proof (cases "?ps = []")
    case True
    then have "\<not> (\<exists>j\<in>set (jobs db). state j = Pending)" by (simp add: filter_empty_conv)
    with True show ?thesis by (simp add: status_def Let_def)
  next
    case False
    then have ex: "\<exists>j\<in>set (jobs db). state j = Pending" by (simp add: filter_empty_conv)
    from oldest_created_at [OF False] obtain y where
      y: "first_by (\<lambda>a b. created_at a < created_at b) ?ps = Some y"
      and m: "created_at y = Min (created_at ` set ?ps)" by blast
    from first_by_in [OF y] created have "created_at y \<noteq> []" by auto
    moreover have "set ?ps = {j \<in> set (jobs db). state j = Pending}" by auto
    ultimately show ?thesis using y m ex by (simp add: status_def Let_def orNull_def)
  qed
  have p1: "pending (status h t db) = card {i. i < length (jobs db) \<and> state (jobs db ! i) = Pending}"
    by (simp add: status_def Let_def counts)
  have p2: "processing (status h t db) = card {i. i < length (jobs db) \<and> state (jobs db ! i) = Processing}"
    by (simp add: status_def Let_def counts)
  have p3: "completed (status h t db) = card {i. i < length (jobs db) \<and> state (jobs db ! i) = Completed}"
    by (simp add: status_def Let_def counts)
  have p4: "failed (status h t db) = card {i. i < length (jobs db) \<and> state (jobs db ! i) = Failed}"
    by (simp add: status_def Let_def counts)
  have p5: "dead (status h t db) = card {i. i < length (jobs db) \<and> state (jobs db ! i) = Dead}"
    by (simp add: status_def Let_def counts)
  show ?thesis by (intro conjI p1 p2 p3 p4 p5 active oldest)
qed
theorem status_spec_witness:
  "list_all (\<lambda>j. created_at j \<noteq> []) (jobs db_status) \<and> toISOString host0 (10000 - 10000) \<noteq> [] \<and>
   status host0 10000 db_status =
     \<lparr>pending = 2, processing = 1, completed = 0, failed = 0, dead = 0, active_workers = 1,
      oldest_pending = Some ''1970-01-01T00:00:00.000Z''\<rparr> \<and>
   card {i. i < length (jobs db_status) \<and> state (jobs db_status ! i) = Pending} = 2 \<and>
   Min (created_at ` {j \<in> set (jobs db_status). state j = Pending}) = ''1970-01-01T00:00:00.000Z''"
proof -
  have a: "\<forall>j\<in>set (jobs db_status). created_at j \<noteq> []"
    by (simp add: db_status_def empty_db_def job_a_def job_b_def job_hi_def)
  have b: "toISOString host0 (10000 - 10000) \<noteq> []"
    by (simp add: host0_def stamps_def)
  have c: "status host0 10000 db_status =
     \<lparr>pending = 2, processing = 1, completed = 0, failed = 0, dead = 0, active_workers = 1,
      oldest_pending = Some ''1970-01-01T00:00:00.000Z''\<rparr>"
    by (simp add: eval_defs db_status_def worker_1_def job_a_def job_b_def job_hi_def)
  have d: "\<exists>j\<in>set (jobs db_status). state j = Pending"
    by (simp add: db_status_def empty_db_def job_b_def)
  note inst = status_spec [OF a b]
  from inst c have 1: "card {i. i < length (jobs db_status) \<and> state (jobs db_status ! i) = Pending} = 2"
    by simp
  from inst c d have 2: "Min (created_at ` {j \<in> set (jobs db_status). state j = Pending}) =
      ''1970-01-01T00:00:00.000Z''"
    by simp
  from a have a': "list_all (\<lambda>j. created_at j \<noteq> []) (jobs db_status)"
    by (simp add: list_all_iff)
  from a' b c 1 2 show ?thesis by blast
qed

text \<open>
  C8 (as stated): two successive \<^verbatim>\<open>status()\<close> calls without a mutation in between return
  identical results, \<open>active_workers\<close> included. \<^verbatim>\<open>status\<close> reads the clock: on \<open>db_status\<close>
  the call at 00:00:10 counts the worker whose heartbeat is at 00:00:01, the call at
  00:00:12 does not.
\<close>

theorem status_clock_counterexample:
  "active_workers (status host0 10000 db_status) = 1 \<and>
   active_workers (status host0 12000 db_status) = 0 \<and>
   status host0 10000 db_status \<noteq> status host0 12000 db_status"
  by (simp add: eval_defs db_status_def worker_1_def)
text \<open>
  C8 (amended): two \<^verbatim>\<open>status()\<close> calls on the same store return the same five counts and
  the same \<open>oldest_pending\<close>; they return identical results, \<open>active_workers\<close> included,
  when no worker's \<open>heartbeat_at\<close> separates the ten-seconds-ago instants of the two calls
  (as when both calls read the same clock value).
\<close>

theorem status_stable:
  "pending (status h t1 db) = pending (status h t2 db) \<and>
   processing (status h t1 db) = processing (status h t2 db) \<and>
   completed (status h t1 db) = completed (status h t2 db) \<and>
   failed (status h t1 db) = failed (status h t2 db) \<and>
   dead (status h t1 db) = dead (status h t2 db) \<and>
   oldest_pending (status h t1 db) = oldest_pending (status h t2 db) \<and>
   ((\<forall>w\<in>set (workers db). (toISOString h (t1 - 10000) \<le> heartbeat_at w) =
                            (toISOString h (t2 - 10000) \<le> heartbeat_at w)) \<longrightarrow>
      status h t1 db = status h t2 db)"
proof (intro conjI impI)
  assume same: "\<forall>w\<in>set (workers db). (toISOString h (t1 - 10000) \<le> heartbeat_at w) =
                            (toISOString h (t2 - 10000) \<le> heartbeat_at w)"
  have "filter (\<lambda>w. heartbeat_at w \<noteq> [] \<and> toISOString h (t1 - 10000) \<le> heartbeat_at w) (workers db) =
     filter (\<lambda>w. heartbeat_at w \<noteq> [] \<and> toISOString h (t2 - 10000) \<le> heartbeat_at w) (workers db)"
    by (rule filter_cong) (use same in auto)
  then show "status h t1 db = status h t2 db"
    unfolding status_def Let_def by (simp only:)
qed (simp_all add: status_def Let_def)
theorem status_stable_witness:
  "list_all (\<lambda>w. (toISOString host0 (10000 - 10000) \<le> heartbeat_at w) =
                   (toISOString host0 (11000 - 10000) \<le> heartbeat_at w)) (workers db_status) \<and>
   status host0 10000 db_status = status host0 11000 db_status \<and>
   pending (status host0 10000 db_status) = pending (status host0 12000 db_status) \<and>
   oldest_pending (status host0 10000 db_status) = oldest_pending (status host0 12000 db_status)"
proof -
  have a: "\<forall>w\<in>set (workers db_status). (toISOString host0 (10000 - 10000) \<le> heartbeat_at w) =
                                  (toISOString host0 (11000 - 10000) \<le> heartbeat_at w)"
    by (simp add: db_status_def empty_db_def worker_1_def host0_def stamps_def)
  from status_stable [of host0 10000 db_status 11000] a
  have 1: "status host0 10000 db_status = status host0 11000 db_status" by blast
  from status_stable [of host0 10000 db_status 12000]
  have 2: "pending (status host0 10000 db_status) = pending (status host0 12000 db_status)"
    and 3: "oldest_pending (status host0 10000 db_status) = oldest_pending (status host0 12000 db_status)"
    by blast+
  from a have a': "list_all (\<lambda>w. (toISOString host0 (10000 - 10000) \<le> heartbeat_at w) =
                   (toISOString host0 (11000 - 10000) \<le> heartbeat_at w)) (workers db_status)"
    by (simp add: list_all_iff)
  from a' 1 2 3 show ?thesis by blast
qed

text \<open>
  C5: \<^verbatim>\<open>dlqRetry\<close> on the DLQ row that \<^verbatim>\<open>processJob\<close> has just written. The job row, now
  \<open>dead\<close>, is still in \<open>jobs\<close> with the id of the payload, so the INSERT of the fresh row is
  rejected, the transaction is rolled back and the call throws: the DLQ row stays and no
  pending row appears.
\<close>

theorem dlqRetry_after_dead_letter:
  "processJob host0 (job_run\<lparr>attempts := 2\<rparr>) (ExecFail ''Command failed: exit 1'' '''' ''1'')
     2000 3000 db_last = Inr db_dead \<and>
   find (\<lambda>d. dlq_id d = ''dlq_t2'') (dlq db_dead) \<noteq> None \<and>
   dlqRetry host0 4000 ''dlq_t2'' db_dead = Inl SqliteError"
  by (simp add: eval_defs db_dead_def db_last_def job_run_def)

section \<open>Invariants: properties\<close>

lemma enqueue_jobs:
  assumes "enqueue h t nanoid job db = Inr (i, d)"
  shows "\<exists>new. jobs d = jobs db @ [new] \<and> jid new = i \<and> i \<notin> jid ` set (jobs db) \<and>
           state new = Pending \<and> attempts new = 0 \<and> locked_by new = None \<and> lock_until new = None"
  using assms by (auto simp: enqueue_def Let_def split: option.splits if_splits)

lemma dlqRetry_jobs:
  assumes "dlqRetry h t i db = Inr (k, d)"
  shows "\<exists>new. jobs d = jobs db @ [new] \<and> jid new = k \<and> k \<notin> jid ` set (jobs db) \<and>
           state new = Pending \<and> attempts new = 0 \<and> locked_by new = None \<and> lock_until new = None"
  using assms by (auto simp: dlqRetry_def Let_def split: option.splits if_splits)

lemma held_ok_append: "held_ok xs w j \<Longrightarrow> held_ok (xs @ [n]) w j"
  by (auto simp: held_ok_def)

lemma consistent_append:
  assumes c: "consistent s"
      and new: "jobs d = jobs (store s) @ [new]" "jid new \<notin> jid ` set (jobs (store s))"
               "state new = Pending" "attempts new = 0"
      and C: "C = claimed s - {jid new}"
  shows "consistent (s\<lparr>store := d, claimed := C\<rparr>)"
proof -
  from c have d: "distinct (map jid (jobs (store s)))"
    and r: "\<forall>j\<in>set (jobs (store s)). row_ok (claimed s) j"
    and sub: "claimed s \<subseteq> jid ` set (jobs (store s))"
    and h: "\<forall>w j. currentJob s w = Some j \<longrightarrow> held_ok (jobs (store s)) w j"
    by (auto simp: consistent_def)
  have 1: "distinct (map jid (jobs d))" using d new by simp
  have 2: "\<forall>j\<in>set (jobs d). row_ok C j"
  proof
    fix j assume "j \<in> set (jobs d)"
    then have "j = new \<or> j \<in> set (jobs (store s))" using new by auto
    then show "row_ok C j"
    proof
      assume "j = new" then show ?thesis using new C by (simp add: row_ok_def)
    next
      assume j: "j \<in> set (jobs (store s))"
      then have "jid j \<noteq> jid new" using new(2) by (force simp: image_iff)
      with r j show ?thesis using C by (auto simp: row_ok_def)
    qed
  qed
  have 3: "C \<subseteq> jid ` set (jobs d)" using sub new C by auto
  have 4: "\<forall>w j. currentJob s w = Some j \<longrightarrow> held_ok (jobs d) w j"
    using h new(1) by (simp add: held_ok_append)
  from 1 2 3 4 show ?thesis by (simp add: consistent_def)
qed

lemma consistent_enqueue:
  assumes "consistent s" "enqueue h t nanoid job (store s) = Inr (i, d)"
  shows "consistent (s\<lparr>store := d\<rparr>)"
proof -
  from enqueue_jobs [OF assms(2)] obtain new where
    n: "jobs d = jobs (store s) @ [new]" "jid new = i" "i \<notin> jid ` set (jobs (store s))"
       "state new = Pending" "attempts new = 0" by blast
  from assms(1) have "claimed s \<subseteq> jid ` set (jobs (store s))" by (simp add: consistent_def)
  with n have "claimed s = claimed s - {jid new}" by auto
  from consistent_append [OF assms(1) n(1) _ n(4) n(5) this] n
  have "consistent (s\<lparr>store := d, claimed := claimed s\<rparr>)" by simp
  then show ?thesis by simp
qed

lemma consistent_dlq_retry:
  assumes "consistent s" "dlqRetry h t i (store s) = Inr (k, d)"
  shows "consistent (s\<lparr>store := d, claimed := claimed s - {k}\<rparr>)"
proof -
  from dlqRetry_jobs [OF assms(2)] obtain new where
    n: "jobs d = jobs (store s) @ [new]" "jid new = k" "k \<notin> jid ` set (jobs (store s))"
       "state new = Pending" "attempts new = 0" by blast
  from consistent_append [OF assms(1) n(1) _ n(4) n(5), of "claimed s - {k}"] n
  show ?thesis by simp
qed

lemma key_unique:
  "distinct (map jid xs) \<Longrightarrow> a \<in> set xs \<Longrightarrow> b \<in> set xs \<Longrightarrow> jid a = jid b \<Longrightarrow> a = b"
  by (auto simp: distinct_map inj_on_def)

lemma map_jid_update:
  "(\<And>r. jid (g r) = jid r) \<Longrightarrow> map jid (map (\<lambda>r. if P r then g r else r) xs) = map jid xs"
  by (induction xs) auto

lemma consistent_release:
  assumes c: "consistent s"
  shows "consistent (s\<lparr>currentJob := (currentJob s)(w := None)\<rparr>)"
  using c by (auto simp: consistent_def)

lemma consistent_same_core:
  assumes c: "consistent s"
      and d: "jobs d = map g (jobs (store s))"
      and g: "\<And>r. jid (g r) = jid r \<and> state (g r) = state r \<and> attempts (g r) = attempts r \<and>
                   max_retries (g r) = max_retries r \<and> locked_by (g r) = locked_by r"
  shows "consistent (s\<lparr>store := d\<rparr>)"
proof -
  have 1: "map jid (jobs d) = map jid (jobs (store s))" using d g by simp
  have 2: "row_ok C (g r) = row_ok C r" for C r using g [of r] by (simp add: row_ok_def)
  have 3: "held_ok (map g xs) w j" if "held_ok xs w j" for xs w j
  proof -
    from that obtain r where "r \<in> set xs" "jid r = jid j" "state r = Processing"
      "locked_by r = Some w" "attempts r = attempts j" "max_retries r = max_retries j"
      by (auto simp: held_ok_def)
    then have "g r \<in> set (map g xs)" "jid (g r) = jid j" "state (g r) = Processing"
      "locked_by (g r) = Some w" "attempts (g r) = attempts j" "max_retries (g r) = max_retries j"
      using g [of r] by auto
    then show ?thesis unfolding held_ok_def by blast
  qed
  have 4: "jid ` set (jobs d) = jid ` set (jobs (store s))"
    using 1 by (metis set_map)
  from c have dist: "distinct (map jid (jobs (store s)))"
    and rows: "\<forall>r\<in>set (jobs (store s)). row_ok (claimed s) r"
    and sub: "claimed s \<subseteq> jid ` set (jobs (store s))"
    and held: "\<forall>w j. currentJob s w = Some j \<longrightarrow> held_ok (jobs (store s)) w j"
    by (auto simp: consistent_def)
  have a: "distinct (map jid (jobs d))" using dist 1 by simp
  have b: "\<forall>r\<in>set (jobs d). row_ok (claimed s) r" using rows 2 d by simp
  have e: "claimed s \<subseteq> jid ` set (jobs d)" using sub 4 by simp
  have f: "\<forall>w j. currentJob s w = Some j \<longrightarrow> held_ok (jobs d) w j"
    using held 3 d by simp
  from a b e f show ?thesis by (simp add: consistent_def)
qed

lemma consistent_refresh:
  assumes "consistent s"
  shows "consistent (s\<lparr>store := refreshLock h w cj t (store s)\<rparr>)"
proof (cases cj)
  case None
  with assms show ?thesis by (simp add: refreshLock_def)
next
  case (Some c)
  show ?thesis
  proof (cases "addSeconds h (nowISO h t) 60")
    case (Inl e)
    with Some assms show ?thesis by (simp add: refreshLock_def)
  next
    case (Inr extended)
    show ?thesis
      by (rule consistent_same_core [OF assms, where g = "\<lambda>j. if jid j = jid c \<and> locked_by j = Some w
           then j\<lparr>lock_until := Some extended\<rparr> else j"])
         (simp_all add: Some Inr refreshLock_def update_where_def Let_def)
  qed
qed

lemma consistent_resolve_row:
  assumes c: "consistent s" and cur: "currentJob s w = Some j"
      and d: "jobs d = map (\<lambda>r. if jid r = jid j then g r else r) (jobs (store s))"
      and g1: "\<And>r. jid (g r) = jid r" "\<And>r. max_retries (g r) = max_retries r"
      and g2: "\<And>r. state (g r) \<noteq> Pending"
      and g3: "\<And>r. attempts r = attempts j \<Longrightarrow> attempts (g r) = attempts r"
      and g4: "\<And>r. state (g r) = Failed \<Longrightarrow> attempts j < max_retries j"
  shows "consistent (s\<lparr>store := d, currentJob := (currentJob s)(w := None)\<rparr>)"
proof -
  let ?xs = "jobs (store s)"
  from c have dist: "distinct (map jid ?xs)"
    and rows: "\<forall>r\<in>set ?xs. row_ok (claimed s) r"
    and sub: "claimed s \<subseteq> jid ` set ?xs"
    and held: "\<forall>w j. currentJob s w = Some j \<longrightarrow> held_ok ?xs w j"
    by (auto simp: consistent_def)
  from held cur obtain r0 where r0: "r0 \<in> set ?xs" "jid r0 = jid j" "state r0 = Processing"
    "locked_by r0 = Some w" "attempts r0 = attempts j" "max_retries r0 = max_retries j"
    by (auto simp: held_ok_def)
  from rows r0 have ok0: "row_ok (claimed s) r0" by blast
  have mj: "map jid (jobs d) = map jid ?xs" unfolding d by (rule map_jid_update) (rule g1)
  have 1: "distinct (map jid (jobs d))" using mj dist by simp
  have 2: "\<forall>r\<in>set (jobs d). row_ok (claimed s) r"
  proof
    fix r' assume "r' \<in> set (jobs d)"
    then obtain r where r: "r \<in> set ?xs" "r' = (if jid r = jid j then g r else r)"
      unfolding d by auto
    show "row_ok (claimed s) r'"
    proof (cases "jid r = jid j")
      case True
      with r r0 dist have "r = r0" by (auto intro: key_unique)
      with True r have r': "r' = g r0" by simp
      from ok0 r0 have a: "1 \<le> attempts r0" "jid r0 \<in> claimed s"
        "0 \<le> max_retries r0 \<longrightarrow> attempts r0 \<le> max_retries r0 + 1"
        by (auto simp: row_ok_def)
      have b: "attempts (g r0) = attempts r0" using g3 r0 by simp
      show ?thesis
        unfolding r' row_ok_def using a b g1 [of r0] g2 [of r0] g4 [of r0] r0 by auto
    next
      case False
      with r rows show ?thesis by simp
    qed
  qed
  have 3: "claimed s \<subseteq> jid ` set (jobs d)"
    using sub mj by (metis set_map)
  have 4: "held_ok (jobs d) w' j'" if "((currentJob s)(w := None)) w' = Some j'" for w' j'
  proof -
    from that have ne: "w' \<noteq> w" and cj: "currentJob s w' = Some j'" by (auto split: if_splits)
    from held cj obtain r where r: "r \<in> set ?xs" "jid r = jid j'" "state r = Processing"
      "locked_by r = Some w'" "attempts r = attempts j'" "max_retries r = max_retries j'"
      by (auto simp: held_ok_def)
    have "jid r \<noteq> jid j"
    proof
      assume "jid r = jid j"
      with r r0 dist have "r = r0" by (auto intro: key_unique)
      with r r0 ne show False by simp
    qed
    with r(1) have "r \<in> set (jobs d)" unfolding d by force
    with r show ?thesis unfolding held_ok_def by blast
  qed
  from 1 2 3 4 show ?thesis by (simp add: consistent_def)
qed

lemma consistent_resolve:
  assumes c: "consistent s" and cur: "currentJob s w = Some j"
      and p: "processJob h j res t t' (store s) = Inr d"
  shows "consistent (s\<lparr>store := d, currentJob := (currentJob s)(w := None)\<rparr>)"
proof -
  from c cur have "held_ok (jobs (store s)) w j" by (simp add: consistent_def)
  then obtain r0 where r0: "r0 \<in> set (jobs (store s))" "state r0 = Processing"
    "attempts r0 = attempts j"
    by (auto simp: held_ok_def)
  from c r0(1) have "row_ok (claimed s) r0" by (simp add: consistent_def)
  with r0 have a: "1 \<le> attempts j" by (auto simp: row_ok_def)
  then have now: "(if attempts j = 0 then 1 else attempts j) = attempts j" by simp
  show ?thesis
  proof (cases res)
    case ExecOk
    with p have d: "jobs d = map (\<lambda>r. if jid r = jid j
        then r\<lparr>state := Completed, updated_at := nowISO h t, locked_by := None,
               lock_until := None, last_error := None\<rparr> else r) (jobs (store s))"
      by (auto simp: processJob_def Let_def update_where_def)
    show ?thesis by (rule consistent_resolve_row [OF c cur d]) simp_all
  next
    case (ExecFail err stderr code)
    show ?thesis
    proof (cases "attempts j < max_retries j")
      case True
      define le where "le = lastErrorText h err stderr code"
      from True p ExecFail now obtain runAt where ra: "addSeconds h (nowISO h t)
          (backoff (case getInt (store s) ''backoff_base'' of NaN \<Rightarrow> 2
                    | Num n \<Rightarrow> if n = 0 then 2 else n) (attempts j)) = Inr runAt"
        by (auto simp: processJob_def Let_def split: sum.splits)
      from True p ExecFail now ra have d: "jobs d = map (\<lambda>r. if jid r = jid j
          then r\<lparr>state := Failed, attempts := attempts j, run_at := Some runAt,
                 updated_at := nowISO h t, last_error := Some le,
                 locked_by := None, lock_until := Some runAt\<rparr> else r) (jobs (store s))"
        by (auto simp: processJob_def Let_def update_where_def le_def)
      show ?thesis by (rule consistent_resolve_row [OF c cur d]) (simp_all add: True)
    next
      case False
      define le where "le = lastErrorText h err stderr code"
      from False p ExecFail now have d: "jobs d = map (\<lambda>r. if jid r = jid j
          then r\<lparr>state := Dead, updated_at := nowISO h t', locked_by := None,
                 lock_until := None, last_error := Some le\<rparr> else r) (jobs (store s))"
        by (auto simp: processJob_def Let_def update_where_def le_def split: if_splits)
      show ?thesis by (rule consistent_resolve_row [OF c cur d]) simp_all
    qed
  qed
qed

lemma consistent_claim:
  assumes c: "consistent s" and cur: "currentJob s w = None"
      and cl: "claimJob h w t (store s) = Inr (r, d)"
  shows "consistent (s\<lparr>store := d, currentJob := (currentJob s)(w := r),
           claimed := (case select_next (nowISO h t) (store s) of
                         None \<Rightarrow> claimed s | Some i \<Rightarrow> insert i (claimed s))\<rparr>)"
proof (cases "select_next (nowISO h t) (store s)")
  case None
  with cl have "r = None" "d = store s"
    by (auto simp: claimJob_def Let_def split: sum.splits)
  with None consistent_release [OF c, of w] show ?thesis by simp
next
  case (Some i)
  from cl obtain lockUntil where lu: "addSeconds h (nowISO h t) 60 = Inr lockUntil"
    by (auto simp: claimJob_def Let_def split: sum.splits)
  let ?now = "nowISO h t"
  let ?xs = "jobs (store s)"
  let ?f = "claim_update w lockUntil ?now"
  let ?C = "insert i (claimed s)"
  from c have dist: "distinct (map jid ?xs)"
    and rows: "\<forall>r\<in>set ?xs. row_ok (claimed s) r"
    and sub: "claimed s \<subseteq> jid ` set ?xs"
    and held: "\<forall>w j. currentJob s w = Some j \<longrightarrow> held_ok ?xs w j"
    by (auto simp: consistent_def)
  from Some obtain c0 where c0: "first_by claim_order (filter (eligible ?now) ?xs) = Some c0"
    and i: "i = jid c0"
    by (auto simp: select_next_def)
  from first_by_in [OF c0] have c0in: "c0 \<in> set ?xs" and el: "eligible ?now c0" by auto
  from el have st0: "state c0 = Pending \<or> state c0 = Failed" by (simp add: eligible_def)
  have ch: "changes (\<lambda>j. jid j = i) (store s) \<noteq> 0"
    using c0in i by (auto simp: changes_def filter_empty_conv)
  have d: "jobs d = map (\<lambda>j. if jid j = i then ?f j else j) ?xs"
    using cl Some ch lu by (auto simp: claimJob_def Let_def update_where_def)
  have r: "r = reread w d"
    using cl Some ch lu by (auto simp: claimJob_def Let_def)
  have mj: "map jid (jobs d) = map jid ?xs"
    unfolding d by (rule map_jid_update) (simp add: claim_update_def)
  have 1: "distinct (map jid (jobs d))" using mj dist by simp
  have 2: "\<forall>x\<in>set (jobs d). row_ok ?C x"
  proof
    fix x' assume "x' \<in> set (jobs d)"
    then obtain x where x: "x \<in> set ?xs" "x' = (if jid x = i then ?f x else x)"
      unfolding d by auto
    from rows x(1) have okx: "row_ok (claimed s) x" by blast
    show "row_ok ?C x'"
    proof (cases "jid x = i")
      case True
      with x c0in i dist have "x = c0" by (auto intro: key_unique)
      with True x have x': "x' = ?f c0" by simp
      from rows c0in have "row_ok (claimed s) c0" by blast
      with st0 show ?thesis unfolding x' row_ok_def claim_update_def using i by auto
    next
      case False
      with x okx show ?thesis by (auto simp: row_ok_def)
    qed
  qed
  have 3: "?C \<subseteq> jid ` set (jobs d)"
  proof -
    have "jid ` set (jobs d) = jid ` set ?xs" using mj by (metis set_map)
    with sub c0in i show ?thesis by auto
  qed
  have 4: "held_ok (jobs d) w' j'" if "((currentJob s)(w := r)) w' = Some j'" for w' j'
  proof (cases "w' = w")
    case True
    with that have "reread w d = Some j'" using r by simp
    from first_by_in [OF this [unfolded reread_def]]
    have "j' \<in> set (jobs d)" "locked_by j' = Some w" "state j' = Processing" by auto
    with True show ?thesis unfolding held_ok_def by blast
  next
    case False
    with that have "currentJob s w' = Some j'" by simp
    with held obtain x where x: "x \<in> set ?xs" "jid x = jid j'" "state x = Processing"
      "locked_by x = Some w'" "attempts x = attempts j'" "max_retries x = max_retries j'"
      by (auto simp: held_ok_def)
    have "jid x \<noteq> i"
    proof
      assume "jid x = i"
      with x c0in i dist have "x = c0" by (auto intro: key_unique)
      with x st0 show False by auto
    qed
    with x(1) have "x \<in> set (jobs d)" unfolding d by force
    with x show ?thesis unfolding held_ok_def by blast
  qed
  from 1 2 3 4 Some show ?thesis by (simp add: consistent_def)
qed

lemma reachable_consistent: "reachable h s \<Longrightarrow> consistent s"
proof (induction rule: reachable.induct)
  case (init d)
  then show ?case by (simp add: consistent_def)
next
  case (enqueue s t nanoid job i d)
  then show ?case by (auto intro: consistent_enqueue)
next
  case (claim s w t r d)
  then show ?case by (rule_tac consistent_claim)
next
  case (resolve s w j res t t' d)
  then show ?case by (auto intro: consistent_resolve)
next
  case (resolve_thrown s w j res t t' e)
  then show ?case by (auto intro: consistent_release)
next
  case (refresh s w j t)
  then show ?case by (auto intro: consistent_refresh)
next
  case (dlq_retry s t i k d)
  then show ?case by (auto intro: consistent_dlq_retry)
qed

lemma lease_update:
  assumes "\<forall>j\<in>set (jobs db). lease_ok j" and "\<And>j. lease_ok j \<Longrightarrow> P j \<Longrightarrow> lease_ok (f j)"
  shows "\<forall>j\<in>set (jobs (update_where P f db)). lease_ok j"
  using assms by (auto simp: update_where_def)

lemma lease_append:
  assumes "\<forall>j\<in>set (jobs db). lease_ok j" and "jobs d = jobs db @ [new]"
      and "state new = Pending" "locked_by new = None" "lock_until new = None"
  shows "\<forall>j\<in>set (jobs d). lease_ok j"
  using assms by (auto simp: lease_ok_def)

lemma lease_claimJob:
  assumes "\<forall>j\<in>set (jobs db). lease_ok j" and cl: "claimJob h w t db = Inr (r, d)"
  shows "\<forall>j\<in>set (jobs d). lease_ok j"
proof (cases "select_next (nowISO h t) db")
  case None
  with cl have "d = db" by (auto simp: claimJob_def Let_def split: sum.splits)
  with assms show ?thesis by simp
next
  case (Some i)
  from cl obtain lockUntil where lu: "addSeconds h (nowISO h t) 60 = Inr lockUntil"
    by (auto simp: claimJob_def Let_def split: sum.splits)
  have a: "\<forall>j\<in>set (jobs (update_where (\<lambda>j. jid j = i)
      (claim_update w lockUntil (nowISO h t)) db)). lease_ok j"
    by (rule lease_update [OF assms(1)]) (simp add: lease_ok_def claim_update_def)
  from cl Some lu have "d = update_where (\<lambda>j. jid j = i)
      (claim_update w lockUntil (nowISO h t)) db"
    by (auto simp: claimJob_def Let_def split: if_splits)
  with a show ?thesis by simp
qed

lemma lease_processJob:
  assumes "\<forall>j\<in>set (jobs db). lease_ok j" and "processJob h job res t t' db = Inr d"
  shows "\<forall>j\<in>set (jobs d). lease_ok j"
proof (cases res)
  case ExecOk
  with assms(2) have d: "d = update_where (\<lambda>j. jid j = jid job)
      (\<lambda>j. j\<lparr>state := Completed, updated_at := nowISO h t, locked_by := None,
             lock_until := None, last_error := None\<rparr>) db"
    by (simp add: processJob_def Let_def)
  show ?thesis unfolding d by (rule lease_update [OF assms(1)]) (simp add: lease_ok_def)
next
  case (ExecFail err stderr code)
  show ?thesis
  proof (cases "(if attempts job = 0 then 1 else attempts job) < max_retries job")
    case True
    from True ExecFail assms(2) obtain runAt where ra: "addSeconds h (nowISO h t)
          (backoff (case getInt db ''backoff_base'' of NaN \<Rightarrow> 2
                    | Num n \<Rightarrow> if n = 0 then 2 else n)
             (if attempts job = 0 then 1 else attempts job)) = Inr runAt"
      by (auto simp: processJob_def Let_def split: sum.splits)
    from True ExecFail assms(2) ra have d: "d = update_where (\<lambda>j. jid j = jid job)
      (\<lambda>j. j\<lparr>state := Failed, attempts := (if attempts job = 0 then 1 else attempts job),
             run_at := Some runAt, updated_at := nowISO h t,
             last_error := Some (lastErrorText h err stderr code),
             locked_by := None, lock_until := Some runAt\<rparr>) db"
      by (simp add: processJob_def Let_def)
    show ?thesis unfolding d by (rule lease_update [OF assms(1)]) (simp add: lease_ok_def)
  next
    case False
    define db2 where "db2 = db\<lparr>dlq := dlq db @
        [\<lparr>dlq_id = ''dlq_'' @ jid job, job_id = jid job,
          payload = \<lparr>p_id = jid job, p_command = command job,
                      p_max_retries = Some (max_retries job), p_priority = Some (priority job)\<rparr>,
          dead_at = nowISO h t'\<rparr>]\<rparr>"
    have a: "\<forall>j\<in>set (jobs db2). lease_ok j" using assms(1) by (simp add: db2_def)
    from False ExecFail assms(2) have d: "d = update_where (\<lambda>j. jid j = jid job)
      (\<lambda>j. j\<lparr>state := Dead, updated_at := nowISO h t', locked_by := None,
             lock_until := None, last_error := Some (lastErrorText h err stderr code)\<rparr>) db2"
      by (simp add: processJob_def Let_def db2_def split: if_splits)
    show ?thesis unfolding d by (rule lease_update [OF a]) (simp add: lease_ok_def)
  qed
qed

lemma lease_refreshLock:
  assumes "\<forall>j\<in>set (jobs db). lease_ok j"
  shows "\<forall>j\<in>set (jobs (refreshLock h w cj t db)). lease_ok j"
proof (cases cj)
  case None
  with assms show ?thesis by (simp add: refreshLock_def)
next
  case (Some c)
  show ?thesis
  proof (cases "addSeconds h (nowISO h t) 60")
    case (Inl e)
    with Some assms show ?thesis by (simp add: refreshLock_def)
  next
    case (Inr extended)
    have "\<forall>j\<in>set (jobs (update_where (\<lambda>j. jid j = jid c \<and> locked_by j = Some w)
        (\<lambda>j. j\<lparr>lock_until := Some extended\<rparr>) db)). lease_ok j"
      by (rule lease_update [OF assms]) (auto simp: lease_ok_def)
    with Some Inr show ?thesis by (simp add: refreshLock_def Let_def)
  qed
qed

lemma reachable_lease: "reachable h s \<Longrightarrow> \<forall>j\<in>set (jobs (store s)). lease_ok j"
proof (induction rule: reachable.induct)
  case (init d)
  then show ?case by simp
next
  case (enqueue s t nanoid job i d)
  from enqueue_jobs [OF enqueue.hyps(2)] obtain new where
    n: "jobs d = jobs (store s) @ [new]" "state new = Pending" "locked_by new = None"
    "lock_until new = None" by blast
  from lease_append [OF enqueue.IH n] show ?case by simp
next
  case (claim s w t r d)
  from lease_claimJob [OF claim.IH claim.hyps(3)] show ?case by simp
next
  case (resolve s w j res t t' d)
  from lease_processJob [OF resolve.IH resolve.hyps(3)] show ?case by simp
next
  case (resolve_thrown s w j res t t' e)
  then show ?case by simp
next
  case (refresh s w j t)
  from lease_refreshLock [OF refresh.IH] show ?case by simp
next
  case (dlq_retry s t i k d)
  from dlqRetry_jobs [OF dlq_retry.hyps(2)] obtain new where
    n: "jobs d = jobs (store s) @ [new]" "state new = Pending" "locked_by new = None"
    "lock_until new = None" by blast
  from lease_append [OF dlq_retry.IH n] show ?case by simp
qed

lemma reachable_sys_0: "reachable host0 sys_0"
  unfolding sys_0_def by (rule reachable.init) (simp_all add: empty_db_def)

lemma reachable_sys_1: "reachable host0 sys_1"
proof -
  have "enqueue host0 0 ''V1StGXR8'' input_t2 (store sys_0) = Inr (''t2'', empty_db\<lparr>jobs := [job_new]\<rparr>)"
    by (simp add: eval_defs sys_0_def input_t2_def job_new_def job_run_def)
  from reachable.enqueue [OF reachable_sys_0 this] show ?thesis by (simp add: sys_1_def)
qed

lemma reachable_sys_2: "reachable host0 sys_2"
proof -
  have a: "currentJob sys_1 ''w'' = None" by (simp add: sys_1_def sys_0_def)
  have b: "claimJob host0 ''w'' 1000 (store sys_1) = Inr (Some job_run, db_run)"
    by (simp add: eval_defs sys_1_def sys_0_def job_new_def job_run_def db_run_def)
  have c: "select_next (nowISO host0 1000) (store sys_1) = Some ''t2''"
    by (simp add: eval_defs sys_1_def sys_0_def job_new_def job_run_def)
  have d: "claimed sys_1 = {}" by (simp add: sys_1_def sys_0_def)
  from reachable.claim [OF reachable_sys_1 a b] show ?thesis by (simp add: sys_2_def c d)
qed

lemma reachable_sys_3: "reachable host0 sys_3"
proof -
  have a: "currentJob sys_2 ''w'' = Some job_run" by (simp add: sys_2_def)
  have b: "processJob host0 job_run (ExecFail ''Command failed: exit 1'' '''' ''1'') 2000 2000
      (store sys_2) = Inr (db_run\<lparr>jobs := [job_failed]\<rparr>)"
    by (simp add: eval_defs sys_2_def job_run_def db_run_def job_failed_def)
  from reachable.resolve [OF reachable_sys_2 a b] show ?thesis by (simp add: sys_3_def)
qed

lemma reachable_sys_n2: "reachable host0 sys_n2"
proof -
  have e: "enqueue host0 0 ''V1StGXR8'' input_neg (store sys_0) = Inr (''n'', empty_db\<lparr>jobs := [job_neg]\<rparr>)"
    by (simp add: eval_defs sys_0_def input_neg_def job_neg_def)
  from reachable.enqueue [OF reachable_sys_0 e] have r1: "reachable host0 sys_n1"
    by (simp add: sys_n1_def)
  have a: "currentJob sys_n1 ''w'' = None" by (simp add: sys_n1_def sys_0_def)
  have b: "claimJob host0 ''w'' 1000 (store sys_n1) =
      Inr (Some job_neg_run, empty_db\<lparr>jobs := [job_neg_run]\<rparr>)"
    by (simp add: eval_defs sys_n1_def sys_0_def job_neg_def job_neg_run_def)
  have c: "select_next (nowISO host0 1000) (store sys_n1) = Some ''n''"
    by (simp add: eval_defs sys_n1_def sys_0_def job_neg_def)
  have d: "claimed sys_n1 = {}" by (simp add: sys_n1_def sys_0_def)
  from reachable.claim [OF r1 a b] show ?thesis by (simp add: sys_n2_def c d)
qed

text \<open>
  C3 (as stated): in every reachable state a row in state \<open>failed\<close> has \<open>lock_until = null\<close>.
  After the first failure of job \<open>t2\<close> its row is \<open>failed\<close> and \<open>lock_until\<close> is the retry time
  00:00:04.
\<close>

theorem failed_row_keeps_lock_until_counterexample:
  "reachable host0 sys_3 \<and> jobs (store sys_3) = [job_failed] \<and> state job_failed = Failed \<and>
   locked_by job_failed = None \<and> lock_until job_failed = Some ''1970-01-01T00:00:04.000Z''"
  using reachable_sys_3 by (simp add: sys_3_def job_failed_def)

text \<open>
  C3 (amended): in every state reachable by enqueue, claim, outcome resolution, lock refresh
  and dlq_retry, every job row satisfies: state \<open>processing\<close> implies that \<open>locked_by\<close> and
  \<open>lock_until\<close> are both non-null; state \<open>pending\<close>, \<open>completed\<close> or \<open>dead\<close> implies that both
  are null; state \<open>failed\<close> implies that \<open>locked_by\<close> is null and that \<open>lock_until\<close> is the
  non-null retry time \<open>run_at\<close>.
\<close>

theorem lease_invariant:
  assumes "reachable h s" and "j \<in> set (jobs (store s))"
  shows "(state j = Processing \<longrightarrow> locked_by j \<noteq> None \<and> lock_until j \<noteq> None) \<and>
         (state j = Pending \<or> state j = Completed \<or> state j = Dead \<longrightarrow>
            locked_by j = None \<and> lock_until j = None) \<and>
         (state j = Failed \<longrightarrow> locked_by j = None \<and> lock_until j = run_at j \<and> run_at j \<noteq> None)"
  using reachable_lease [OF assms(1)] assms(2) by (simp add: lease_ok_def)

theorem lease_invariant_witness:
  "reachable host0 sys_2 \<and> job_run \<in> set (jobs (store sys_2)) \<and> state job_run = Processing \<and>
   locked_by job_run \<noteq> None \<and> lock_until job_run \<noteq> None \<and>
   reachable host0 sys_3 \<and> job_failed \<in> set (jobs (store sys_3)) \<and> state job_failed = Failed \<and>
   locked_by job_failed = None \<and> lock_until job_failed = run_at job_failed \<and>
   reachable host0 sys_1 \<and> job_new \<in> set (jobs (store sys_1)) \<and> state job_new = Pending \<and>
   locked_by job_new = None \<and> lock_until job_new = None"
proof -
  have a: "job_run \<in> set (jobs (store sys_2))" by (simp add: sys_2_def db_run_def)
  have b: "job_failed \<in> set (jobs (store sys_3))" by (simp add: sys_3_def)
  have c: "job_new \<in> set (jobs (store sys_1))" by (simp add: sys_1_def)
  have sa: "state job_run = Processing" by (simp add: job_run_def)
  have sb: "state job_failed = Failed" by (simp add: job_failed_def)
  have sc: "state job_new = Pending" by (simp add: job_new_def)
  from lease_invariant [OF reachable_sys_2 a] sa
  have 1: "locked_by job_run \<noteq> None \<and> lock_until job_run \<noteq> None" by blast
  from lease_invariant [OF reachable_sys_3 b] sb
  have 2: "locked_by job_failed = None \<and> lock_until job_failed = run_at job_failed" by simp
  from lease_invariant [OF reachable_sys_1 c] sc
  have 3: "locked_by job_new = None \<and> lock_until job_new = None" by simp
  from reachable_sys_1 reachable_sys_2 reachable_sys_3 a b c sa sb sc 1 2 3
  show ?thesis by blast
qed

text \<open>
  C4 (as stated): in every reachable state \<open>attempts \<le> max_retries + 1\<close>. \<^verbatim>\<open>enqueue\<close> stores
  the \<open>max_retries\<close> it is given; with \<open>max_retries = -1\<close> the first claim makes \<open>attempts\<close> 1,
  above \<open>max_retries + 1 = 0\<close>.
\<close>

theorem negative_max_retries_counterexample:
  "reachable host0 sys_n2 \<and> jobs (store sys_n2) = [job_neg_run] \<and>
   attempts job_neg_run = 1 \<and> max_retries job_neg_run + 1 = 0"
  using reachable_sys_n2 by (simp add: sys_n2_def job_neg_run_def job_neg_def)

text \<open>
  C4 (amended): in every state reachable by enqueue, claim, outcome resolution (lock refresh)
  and dlq_retry, every job row whose \<open>max_retries\<close> is not negative satisfies
  \<open>attempts \<le> max_retries + 1\<close>, and every job row satisfies: \<open>attempts = 0\<close> if and only if
  the job has not been claimed since its row was created.
\<close>

theorem attempts_bound:
  assumes "reachable h s" and "j \<in> set (jobs (store s))"
  shows "(0 \<le> max_retries j \<longrightarrow> attempts j \<le> max_retries j + 1) \<and>
         (attempts j = 0 \<longleftrightarrow> jid j \<notin> claimed s)"
proof -
  from reachable_consistent [OF assms(1)] assms(2) have "row_ok (claimed s) j"
    by (simp add: consistent_def)
  then show ?thesis by (cases "state j = Pending") (auto simp: row_ok_def)
qed

theorem attempts_bound_witness:
  "reachable host0 sys_2 \<and> job_run \<in> set (jobs (store sys_2)) \<and> 0 \<le> max_retries job_run \<and>
   attempts job_run \<le> max_retries job_run + 1 \<and> attempts job_run \<noteq> 0 \<and>
   jid job_run \<in> claimed sys_2 \<and>
   reachable host0 sys_1 \<and> job_new \<in> set (jobs (store sys_1)) \<and> attempts job_new = 0 \<and>
   jid job_new \<notin> claimed sys_1"
proof -
  have a: "job_run \<in> set (jobs (store sys_2))" by (simp add: sys_2_def db_run_def)
  have c: "job_new \<in> set (jobs (store sys_1))" by (simp add: sys_1_def)
  have m: "0 \<le> max_retries job_run" by (simp add: job_run_def)
  have n: "attempts job_run \<noteq> 0" by (simp add: job_run_def)
  have z: "attempts job_new = 0" by (simp add: job_new_def)
  from attempts_bound [OF reachable_sys_2 a] m n
  have 1: "attempts job_run \<le> max_retries job_run + 1 \<and> jid job_run \<in> claimed sys_2" by blast
  from attempts_bound [OF reachable_sys_1 c] z
  have 2: "jid job_new \<notin> claimed sys_1" by blast
  from reachable_sys_1 reachable_sys_2 a c m n z 1 2 show ?thesis by blast
qed

section \<open>Dead letters: properties\<close>

text \<open>
  Every row of \<open>dlq\<close> stays backed by a row of \<open>jobs\<close> with the id of its payload, because
  \<^verbatim>\<open>processJob\<close> marks the job row \<open>dead\<close> and no operation deletes it. So in no reachable
  state does \<^verbatim>\<open>dlqRetry\<close> succeed; and a job that a worker holds has no row in \<open>dlq\<close> yet,
  so the transaction of \<^verbatim>\<open>processJob\<close> is never rejected.
\<close>

lemma jids_update_where:
  "(\<And>j. jid (f j) = jid j) \<Longrightarrow> jid ` set (jobs (update_where P f db)) = jid ` set (jobs db)"
proof -
  assume "\<And>j. jid (f j) = jid j"
  then have "map jid (jobs (update_where P f db)) = map jid (jobs db)"
    by (simp add: update_where_def map_jid_update)
  then show ?thesis by (metis set_map)
qed

lemma dlq_update_where: "dlq (update_where P f db) = dlq db"
  by (simp add: update_where_def)

lemma claimJob_tables:
  assumes "claimJob h w t db = Inr (r, d)"
  shows "dlq d = dlq db \<and> jid ` set (jobs d) = jid ` set (jobs db)"
proof -
  from assms obtain lockUntil where lu: "addSeconds h (nowISO h t) 60 = Inr lockUntil"
    by (auto simp: claimJob_def Let_def split: sum.splits)
  show ?thesis
  proof (cases "select_next (nowISO h t) db")
    case None
    with assms lu show ?thesis by (simp add: claimJob_def Let_def)
  next
    case (Some i)
    with assms lu have d: "d = update_where (\<lambda>j. jid j = i) (claim_update w lockUntil (nowISO h t)) db"
      by (auto simp: claimJob_def Let_def split: if_splits)
    have "jid ` set (jobs d) = jid ` set (jobs db)"
      unfolding d by (rule jids_update_where) (simp add: claim_update_def)
    then show ?thesis by (simp add: d dlq_update_where)
  qed
qed

lemma refreshLock_tables:
  "dlq (refreshLock h w cj t db) = dlq db \<and>
   jid ` set (jobs (refreshLock h w cj t db)) = jid ` set (jobs db)"
proof (cases cj)
  case None
  then show ?thesis by (simp add: refreshLock_def)
next
  case (Some c)
  show ?thesis
  proof (cases "addSeconds h (nowISO h t) 60")
    case (Inl e)
    with Some show ?thesis by (simp add: refreshLock_def)
  next
    case (Inr extended)
    have "jid ` set (jobs (update_where (\<lambda>j. jid j = jid c \<and> locked_by j = Some w)
        (\<lambda>j. j\<lparr>lock_until := Some extended\<rparr>) db)) = jid ` set (jobs db)"
      by (rule jids_update_where) simp
    with Some Inr show ?thesis by (simp add: refreshLock_def dlq_update_where)
  qed
qed

lemma processJob_tables:
  assumes "processJob h j res t t' db = Inr d"
  shows "(dlq d = dlq db \<or> (\<exists>e. dlq d = dlq db @ [e] \<and> p_id (payload e) = jid j)) \<and>
         jid ` set (jobs d) = jid ` set (jobs db)"
proof -
  from assms obtain f db2 where d: "d = update_where (\<lambda>r. jid r = jid j) f db2"
    and f: "\<And>r. jid (f r) = jid r"
    and db2: "jobs db2 = jobs db"
      "dlq db2 = dlq db \<or> (\<exists>e. dlq db2 = dlq db @ [e] \<and> p_id (payload e) = jid j)"
  proof (cases res)
    case ExecOk
    with assms that [of "\<lambda>j. j\<lparr>state := Completed, updated_at := nowISO h t, locked_by := None,
        lock_until := None, last_error := None\<rparr>" db]
    show ?thesis by (simp add: processJob_def Let_def)
  next
    case (ExecFail err stderr code)
    show ?thesis
    proof (cases "(if attempts j = 0 then 1 else attempts j) < max_retries j")
      case True
      with ExecFail assms obtain runAt where ra: "addSeconds h (nowISO h t)
          (backoff (case getInt db ''backoff_base'' of NaN \<Rightarrow> 2
                    | Num n \<Rightarrow> if n = 0 then 2 else n)
             (if attempts j = 0 then 1 else attempts j)) = Inr runAt"
        by (auto simp: processJob_def Let_def split: sum.splits)
      with True ExecFail assms that [of "\<lambda>r. r\<lparr>state := Failed,
          attempts := (if attempts j = 0 then 1 else attempts j), run_at := Some runAt,
          updated_at := nowISO h t, last_error := Some (lastErrorText h err stderr code),
          locked_by := None, lock_until := Some runAt\<rparr>" db]
      show ?thesis by (simp add: processJob_def Let_def)
    next
      case False
      with ExecFail assms that [of "\<lambda>r. r\<lparr>state := Dead, updated_at := nowISO h t',
          locked_by := None, lock_until := None,
          last_error := Some (lastErrorText h err stderr code)\<rparr>"
        "db\<lparr>dlq := dlq db @
          [\<lparr>dlq_id = ''dlq_'' @ jid j, job_id = jid j,
            payload = \<lparr>p_id = jid j, p_command = command j,
                        p_max_retries = Some (max_retries j), p_priority = Some (priority j)\<rparr>,
            dead_at = nowISO h t'\<rparr>]\<rparr>"]
      show ?thesis by (simp add: processJob_def Let_def split: if_splits)
    qed
  qed
  have "jid ` set (jobs d) = jid ` set (jobs db2)"
    unfolding d by (rule jids_update_where) (rule f)
  with db2 show ?thesis by (simp add: d dlq_update_where)
qed

lemma reachable_dlq_backed:
  "reachable h s \<Longrightarrow> \<forall>e\<in>set (dlq (store s)). p_id (payload e) \<in> jid ` set (jobs (store s))"
proof (induction rule: reachable.induct)
  case (init d)
  then show ?case by simp
next
  case (enqueue s t nanoid job i d)
  from enqueue_jobs [OF enqueue.hyps(2)] obtain new where n: "jobs d = jobs (store s) @ [new]"
    by blast
  from enqueue.hyps(2) have a: "dlq d = dlq (store s)"
    by (auto simp: enqueue_def Let_def split: option.splits if_splits)
  from enqueue.IH show ?case by (simp add: a n)
next
  case (claim s w t r d)
  from claimJob_tables [OF claim.hyps(3)] claim.IH show ?case by simp
next
  case (resolve s w j res t t' d)
  from reachable_consistent [OF resolve.hyps(1)] resolve.hyps(2)
  have "held_ok (jobs (store s)) w j" by (simp add: consistent_def)
  then obtain r0 where "r0 \<in> set (jobs (store s))" "jid r0 = jid j"
    by (auto simp: held_ok_def)
  then have "jid j \<in> jid ` set (jobs (store s))" by (metis imageI)
  with processJob_tables [OF resolve.hyps(3)] resolve.IH show ?case by auto
next
  case (resolve_thrown s w j res t t' e)
  then show ?case by simp
next
  case (refresh s w j t)
  from refreshLock_tables [of h w "Some j" t "store s"] refresh.IH show ?case by simp
next
  case (dlq_retry s t i k d)
  from dlqRetry_jobs [OF dlq_retry.hyps(2)] obtain new where n: "jobs d = jobs (store s) @ [new]"
    by blast
  from dlq_retry.hyps(2) have a: "dlq d = filter (\<lambda>e. dlq_id e \<noteq> i) (dlq (store s))"
    by (auto simp: dlqRetry_def Let_def split: option.splits if_splits)
  from dlq_retry.IH show ?case by (simp add: a n)
qed

lemma dlqRetry_never_succeeds:
  assumes "reachable h s"
  shows "dlqRetry h t i (store s) = Inl (DlqNotFound i) \<or> dlqRetry h t i (store s) = Inl SqliteError"
proof (cases "find (\<lambda>d. dlq_id d = i) (dlq (store s))")
  case None
  then show ?thesis by (simp add: dlqRetry_def)
next
  case (Some row)
  then have "row \<in> set (dlq (store s))" by (auto simp: find_Some_iff)
  with reachable_dlq_backed [OF assms] have "p_id (payload row) \<in> jid ` set (jobs (store s))"
    by blast
  with Some show ?thesis by (simp add: dlqRetry_def Let_def)
qed

lemma update_where_keeps:
  "x \<in> set (jobs db) \<Longrightarrow> \<not> P x \<Longrightarrow> x \<in> set (jobs (update_where P f db))"
  by (force simp: update_where_def)

lemma claimJob_keeps_dead:
  assumes cl: "claimJob h w t db = Inr (r, d)" and pk: "distinct (map jid (jobs db))"
      and x: "x \<in> set (jobs db)" "state x = Dead"
  shows "x \<in> set (jobs d)"
proof (cases "select_next (nowISO h t) db")
  case None
  with cl have "d = db" by (auto simp: claimJob_def Let_def split: sum.splits)
  with x show ?thesis by simp
next
  case (Some i)
  from cl obtain lockUntil where lu: "addSeconds h (nowISO h t) 60 = Inr lockUntil"
    by (auto simp: claimJob_def Let_def split: sum.splits)
  from cl Some lu have d: "d = update_where (\<lambda>j. jid j = i) (claim_update w lockUntil (nowISO h t)) db"
    by (auto simp: claimJob_def Let_def split: if_splits)
  from Some obtain c0 where c0: "first_by claim_order (filter (eligible (nowISO h t)) (jobs db)) = Some c0"
    and i: "i = jid c0" by (auto simp: select_next_def)
  from first_by_in [OF c0] have "c0 \<in> set (jobs db)" "state c0 \<noteq> Dead"
    by (auto simp: eligible_def)
  with pk x i have "jid x \<noteq> i" by (auto dest: key_unique)
  with x(1) show ?thesis unfolding d by (rule_tac update_where_keeps)
qed

lemma reachable_dead_letters:
  "reachable h s \<Longrightarrow>
   \<forall>e\<in>set (dlq (store s)). \<exists>r\<in>set (jobs (store s)). dlq_id e = ''dlq_'' @ jid r \<and> state r = Dead"
proof (induction rule: reachable.induct)
  case (init d)
  then show ?case by simp
next
  case (enqueue s t nanoid job i d)
  from enqueue_jobs [OF enqueue.hyps(2)] obtain new where n: "jobs d = jobs (store s) @ [new]"
    by blast
  from enqueue.hyps(2) have a: "dlq d = dlq (store s)"
    by (auto simp: enqueue_def Let_def split: option.splits if_splits)
  from enqueue.IH show ?case by (simp add: a n)
next
  case (claim s w t r d)
  from reachable_consistent [OF claim.hyps(1)] have pk: "distinct (map jid (jobs (store s)))"
    by (simp add: consistent_def)
  from claimJob_tables [OF claim.hyps(3)] have a: "dlq d = dlq (store s)" by simp
  have "\<exists>r\<in>set (jobs d). dlq_id e = ''dlq_'' @ jid r \<and> state r = Dead"
    if "e \<in> set (dlq (store s))" for e
  proof -
    from claim.IH that obtain x where x: "x \<in> set (jobs (store s))"
      "dlq_id e = ''dlq_'' @ jid x" "state x = Dead" by blast
    from claimJob_keeps_dead [OF claim.hyps(3) pk x(1) x(3)] x show ?thesis by blast
  qed
  then show ?case by (simp add: a)
next
  case (resolve s w j res t t' d)
  from reachable_consistent [OF resolve.hyps(1)]
  have pk: "distinct (map jid (jobs (store s)))" and "held_ok (jobs (store s)) w j"
    using resolve.hyps(2) by (simp_all add: consistent_def)
  then obtain r0 where r0: "r0 \<in> set (jobs (store s))" "jid r0 = jid j" "state r0 = Processing"
    by (auto simp: held_ok_def)
  from resolve.hyps(3) obtain f db2 where d: "d = update_where (\<lambda>r. jid r = jid j) f db2"
    and db2: "jobs db2 = jobs (store s)"
    and cases: "dlq db2 = dlq (store s) \<or>
      (\<exists>e. dlq db2 = dlq (store s) @ [e] \<and> dlq_id e = ''dlq_'' @ jid j \<and>
           (\<forall>r. jid (f r) = jid r \<and> state (f r) = Dead))"
  proof (cases res)
    case ExecOk
    with resolve.hyps(3) that [of "\<lambda>j. j\<lparr>state := Completed, updated_at := nowISO h t,
        locked_by := None, lock_until := None, last_error := None\<rparr>" "store s"]
    show ?thesis by (simp add: processJob_def Let_def)
  next
    case (ExecFail err stderr code)
    show ?thesis
    proof (cases "(if attempts j = 0 then 1 else attempts j) < max_retries j")
      case True
      with ExecFail resolve.hyps(3) obtain runAt where ra: "addSeconds h (nowISO h t)
          (backoff (case getInt (store s) ''backoff_base'' of NaN \<Rightarrow> 2
                    | Num n \<Rightarrow> if n = 0 then 2 else n)
             (if attempts j = 0 then 1 else attempts j)) = Inr runAt"
        by (auto simp: processJob_def Let_def split: sum.splits)
      with True ExecFail resolve.hyps(3) that [of "\<lambda>r. r\<lparr>state := Failed,
          attempts := (if attempts j = 0 then 1 else attempts j), run_at := Some runAt,
          updated_at := nowISO h t, last_error := Some (lastErrorText h err stderr code),
          locked_by := None, lock_until := Some runAt\<rparr>" "store s"]
      show ?thesis by (simp add: processJob_def Let_def)
    next
      case False
      with ExecFail resolve.hyps(3) that [of "\<lambda>r. r\<lparr>state := Dead, updated_at := nowISO h t',
          locked_by := None, lock_until := None,
          last_error := Some (lastErrorText h err stderr code)\<rparr>"
        "(store s)\<lparr>dlq := dlq (store s) @
          [\<lparr>dlq_id = ''dlq_'' @ jid j, job_id = jid j,
            payload = \<lparr>p_id = jid j, p_command = command j,
                        p_max_retries = Some (max_retries j), p_priority = Some (priority j)\<rparr>,
            dead_at = nowISO h t'\<rparr>]\<rparr>"]
      show ?thesis by (simp add: processJob_def Let_def split: if_splits)
    qed
  qed
  have old: "\<exists>r\<in>set (jobs d). dlq_id e = ''dlq_'' @ jid r \<and> state r = Dead"
    if "e \<in> set (dlq (store s))" for e
  proof -
    from resolve.IH that obtain x where x: "x \<in> set (jobs (store s))"
      "dlq_id e = ''dlq_'' @ jid x" "state x = Dead" by blast
    with pk r0 have "jid x \<noteq> jid j" by (auto dest: key_unique)
    with x(1) db2 have "x \<in> set (jobs d)" unfolding d by (simp add: update_where_keeps)
    with x show ?thesis by blast
  qed
  have new: "\<exists>r\<in>set (jobs d). ''dlq_'' @ jid j = ''dlq_'' @ jid r \<and> state r = Dead"
    if "\<forall>r. jid (f r) = jid r \<and> state (f r) = Dead"
  proof -
    from r0 db2 have in_d: "f r0 \<in> set (jobs d)" unfolding d by (force simp: update_where_def)
    from that r0 have "jid (f r0) = jid j" "state (f r0) = Dead" by simp_all
    then have "''dlq_'' @ jid j = ''dlq_'' @ jid (f r0) \<and> state (f r0) = Dead" by simp
    with in_d show ?thesis by (rule_tac bexI)
  qed
  have "\<forall>e\<in>set (dlq d). \<exists>r\<in>set (jobs d). dlq_id e = ''dlq_'' @ jid r \<and> state r = Dead"
  proof
    fix e assume "e \<in> set (dlq d)"
    then have "e \<in> set (dlq db2)" by (simp add: d dlq_update_where)
    with cases consider (before) "e \<in> set (dlq (store s))"
      | (added) "dlq_id e = ''dlq_'' @ jid j" "\<forall>r. jid (f r) = jid r \<and> state (f r) = Dead"
      by auto
    then show "\<exists>r\<in>set (jobs d). dlq_id e = ''dlq_'' @ jid r \<and> state r = Dead"
    proof cases
      case before
      from old [OF before] show ?thesis .
    next
      case added
      from new [OF added(2)] added(1) show ?thesis by simp
    qed
  qed
  then show ?case by simp
next
  case (resolve_thrown s w j res t t' e)
  then show ?case by simp
next
  case (refresh s w j t)
  have "\<exists>r\<in>set (jobs (refreshLock h w (Some j) t (store s))). dlq_id e = ''dlq_'' @ jid r \<and> state r = Dead"
    if "e \<in> set (dlq (store s))" for e
  proof -
    from refresh.IH that obtain x where x: "x \<in> set (jobs (store s))"
      "dlq_id e = ''dlq_'' @ jid x" "state x = Dead" by blast
    show ?thesis
    proof (cases "addSeconds h (nowISO h t) 60")
      case (Inl a)
      with x show ?thesis by (auto simp: refreshLock_def)
    next
      case (Inr ext)
      define y where "y = (if jid x = jid j \<and> locked_by x = Some w
        then x\<lparr>lock_until := Some ext\<rparr> else x)"
      from x(1) have yin: "y \<in> set (jobs (refreshLock h w (Some j) t (store s)))"
        unfolding y_def by (force simp: refreshLock_def Inr update_where_def)
      have "jid y = jid x" "state y = state x" by (simp_all add: y_def)
      with x have "dlq_id e = ''dlq_'' @ jid y \<and> state y = Dead" by simp
      with yin show ?thesis by (rule_tac bexI)
    qed
  qed
  then show ?case by (simp add: refreshLock_tables)
next
  case (dlq_retry s t i k d)
  from dlqRetry_never_succeeds [OF dlq_retry.hyps(1), of t i] dlq_retry.hyps(2)
  show ?case by simp
qed

lemma held_job_claimed:
  assumes "reachable h s" and "currentJob s w = Some j"
  shows "1 \<le> attempts j"
proof -
  from reachable_consistent [OF assms(1)] assms(2)
  have rows: "\<forall>r\<in>set (jobs (store s)). row_ok (claimed s) r"
    and "held_ok (jobs (store s)) w j"
    by (simp_all add: consistent_def)
  then obtain r where "r \<in> set (jobs (store s))" "state r = Processing" "attempts r = attempts j"
    by (auto simp: held_ok_def)
  with rows show ?thesis by (auto simp: row_ok_def)
qed

lemma held_job_not_dead_lettered:
  assumes "reachable h s" and "currentJob s w = Some j"
  shows "''dlq_'' @ jid j \<notin> dlq_id ` set (dlq (store s))"
proof
  assume "''dlq_'' @ jid j \<in> dlq_id ` set (dlq (store s))"
  then obtain e where "e \<in> set (dlq (store s))" "dlq_id e = ''dlq_'' @ jid j" by auto
  with reachable_dead_letters [OF assms(1)] obtain r where
    r: "r \<in> set (jobs (store s))" "jid r = jid j" "state r = Dead" by force
  from reachable_consistent [OF assms(1)] assms(2)
  have pk: "distinct (map jid (jobs (store s)))" and "held_ok (jobs (store s)) w j"
    by (simp_all add: consistent_def)
  then obtain r0 where "r0 \<in> set (jobs (store s))" "jid r0 = jid j" "state r0 = Processing"
    by (auto simp: held_ok_def)
  with r pk show False by (auto dest: key_unique)
qed

end
